theory Spec2Isabelle
  imports Main "HOL-Library.Word"
begin

section \<open>The video display of Jakopter (video\_display.c)\<close>

text \<open>
  The C file keeps its state in file-level variables, runs the SDL window on a thread of its
  own and lets the caller of \<^verbatim>\<open>video_display_frame\<close> wait for that thread on a
  condition variable. The embedding follows the file function by function:

  \<^item> the file-level variables are the fields of the record \<open>world\<close>, with the same names;
  \<^item> every library call and every access to a variable shared between the two threads is
    appended to the field \<open>trace\<close>, tagged with the thread that makes it, in program order;
  \<^item> what a library call returns is not decided by this file: it is read from an
    environment \<open>env\<close> (one record for thread creation and the starting phase, one record
    per pass through the event loop);
  \<^item> the SDL event queue is the list \<open>queue\<close>; \<^verbatim>\<open>SDL_PushEvent\<close> appends to it (its result
    is ignored by the C code, and the model lets it succeed), \<^verbatim>\<open>SDL_WaitEvent\<close> removes the
    head and blocks on the empty queue;
  \<^item> the display thread is scheduled by the environment. Its scheduling unit
    (\<open>renderer_step\<close>) is the starting phase or one pass through the event loop. Between any
    two actions that the caller makes outside its critical section the display thread takes
    as many steps as the schedule \<open>sched\<close> of the environment says (\<open>preempt\<close>); while the
    caller sleeps in \<^verbatim>\<open>pthread_cond_wait\<close> the display thread runs until one of its steps
    signals the condition variable, and may take further steps before the caller has the
    mutex again. Inside the caller's critical section (from \<^verbatim>\<open>pthread_mutex_lock\<close> to
    \<^verbatim>\<open>pthread_cond_wait\<close>, and from the wake-up to \<^verbatim>\<open>pthread_mutex_unlock\<close>) no step is
    scheduled: there the caller only reads \<^verbatim>\<open>display_fdbk\<close>, which the display thread
    writes under the mutex only, so a step taken there has the effect of the same step taken
    just before or just after. A caller that sleeps while the display thread can never
    signal stays blocked forever, which is the outcome \<open>Blocked\<close>.
\<close>

subsection \<open>Data\<close>

type_synonym ptr = nat

definition NULL :: ptr where
  "NULL = 0"

text \<open>\<^verbatim>\<open>typedef struct video_size { int w, h; } video_size;\<close>\<close>

record video_size =
  size_w :: int
  size_h :: int

datatype feedback_msg = FDBK_NONE | FDBK_OK | FDBK_FAIL

text \<open>
  An \<^verbatim>\<open>SDL_Event\<close>, as far as the file looks at it: \<^verbatim>\<open>type\<close>, \<^verbatim>\<open>user.data1\<close> and the
  \<^verbatim>\<open>video_size\<close> that \<^verbatim>\<open>user.data2\<close> points to (the compound literal of the caller, alive
  while the caller waits).
\<close>

record sdl_event =
  evt_type :: "32 word"
  data1 :: ptr
  data2 :: video_size

definition SDL_QUIT :: "32 word" where
  "SDL_QUIT = 0x100"

datatype thread_id = Producer | Renderer

datatype shared_var = V_initialized | V_current_width | V_current_height | V_display_fdbk

datatype val = VBool bool | VInt int | VFdbk feedback_msg

datatype action =
    Lock | Unlock | CondWait | CondSignal
  | Rd shared_var
  | Wr shared_var val
  | SDL_Init
  | SDL_CreateWindow int int
  | SDL_CreateRenderer ptr
  | SDL_RegisterEvents
  | SDL_SetWindowSize ptr int int
  | SDL_DestroyTexture ptr
  | SDL_CreateTexture ptr int int
  | SDL_UpdateTexture ptr ptr int
  | SDL_WaitEvent
  | SDL_PushEvent sdl_event
  | SDL_RenderClear ptr
  | SDL_RenderCopy ptr ptr
  | SDL_RenderPresent ptr
  | SDL_DestroyRenderer ptr
  | SDL_DestroyWindow ptr
  | SDL_Quit
  | video_set_stopped
  | pthread_create
  | pthread_exit

text \<open>
  The display thread, seen from outside: absent, created and not yet run, or inside its
  loop between two passes, holding its local \<^verbatim>\<open>current_evt\<close>.
\<close>

datatype thread_state = NoThread | Starting | InLoop sdl_event

record world =
  win :: ptr
  renderer :: ptr
  frameTex :: ptr
  event_frame :: "32 word"
  event_quit :: "32 word"
  current_width :: int
  current_height :: int
  initialized :: bool
  display_fdbk :: feedback_msg
  thread :: thread_state
  queue :: "sdl_event list"
  passes :: nat
  trace :: "(thread_id \<times> action) list"

text \<open>What the library calls of thread creation and of the starting phase return.\<close>

record start_env =
  pthread_create_rc :: int
  SDL_Init_rc :: int
  SDL_CreateWindow_r :: ptr
  SDL_CreateRenderer_r :: ptr
  SDL_RegisterEvents_r :: "32 word"
  SDL_CreateTexture_r0 :: ptr
  stack_evt :: sdl_event

text \<open>What the library calls of one pass through the event loop return.\<close>

record pass_env =
  SDL_WaitEvent_rc :: int
  SDL_CreateTexture_r :: ptr
  SDL_UpdateTexture_rc :: int

text \<open>
  The environment: the results of the library calls, and the schedule. \<open>sched E n\<close> is the
  number of steps that the display thread takes at a point where the caller can be
  preempted, \<open>n\<close> being the number of actions traced so far.
\<close>

record env =
  at_start :: start_env
  at_pass :: "nat \<Rightarrow> pass_env"
  sched :: "nat \<Rightarrow> nat"

datatype outcome = Returned int | Blocked

subsection \<open>Primitive steps\<close>

definition act :: "thread_id \<Rightarrow> action \<Rightarrow> world \<Rightarrow> world" where
  "act t a s = s\<lparr>trace := trace s @ [(t, a)]\<rparr>"

definition set_initialized :: "thread_id \<Rightarrow> bool \<Rightarrow> world \<Rightarrow> world" where
  "set_initialized t b s = (act t (Wr V_initialized (VBool b)) s)\<lparr>initialized := b\<rparr>"

definition set_current_width :: "thread_id \<Rightarrow> int \<Rightarrow> world \<Rightarrow> world" where
  "set_current_width t v s = (act t (Wr V_current_width (VInt v)) s)\<lparr>current_width := v\<rparr>"

definition set_current_height :: "thread_id \<Rightarrow> int \<Rightarrow> world \<Rightarrow> world" where
  "set_current_height t v s = (act t (Wr V_current_height (VInt v)) s)\<lparr>current_height := v\<rparr>"

definition set_display_fdbk :: "thread_id \<Rightarrow> feedback_msg \<Rightarrow> world \<Rightarrow> world" where
  "set_display_fdbk t m s = (act t (Wr V_display_fdbk (VFdbk m)) s)\<lparr>display_fdbk := m\<rparr>"

definition push_event :: "thread_id \<Rightarrow> sdl_event \<Rightarrow> world \<Rightarrow> world" where
  "push_event t e s = (act t (SDL_PushEvent e) s)\<lparr>queue := queue s @ [e]\<rparr>"

text \<open>
  \<^verbatim>\<open>SDL_WaitEvent(&current_evt)\<close>: on an error (result 0) the event variable keeps what it
  held; otherwise the head of the queue is delivered. The call is made only when it can
  return (see \<open>can_run\<close>).
\<close>

definition wait_event :: "pass_env \<Rightarrow> sdl_event \<Rightarrow> world \<Rightarrow> int \<times> sdl_event \<times> world" where
  "wait_event p cur s =
     (let s1 = act Renderer SDL_WaitEvent s in
      if SDL_WaitEvent_rc p = 0 then (0, cur, s1)
      else (case queue s1 of
              [] \<Rightarrow> (0, cur, s1)
            | e # q \<Rightarrow> (SDL_WaitEvent_rc p, e, s1\<lparr>queue := q\<rparr>)))"

text \<open>What each primitive step does to each field.\<close>

lemma act_fields [simp]:
  "win (act t a s) = win s"
  "renderer (act t a s) = renderer s"
  "frameTex (act t a s) = frameTex s"
  "event_frame (act t a s) = event_frame s"
  "event_quit (act t a s) = event_quit s"
  "current_width (act t a s) = current_width s"
  "current_height (act t a s) = current_height s"
  "initialized (act t a s) = initialized s"
  "display_fdbk (act t a s) = display_fdbk s"
  "thread (act t a s) = thread s"
  "queue (act t a s) = queue s"
  "passes (act t a s) = passes s"
  "trace (act t a s) = trace s @ [(t, a)]"
  by (simp_all add: act_def)

lemma set_initialized_fields [simp]:
  "win (set_initialized t b s) = win s"
  "renderer (set_initialized t b s) = renderer s"
  "frameTex (set_initialized t b s) = frameTex s"
  "event_frame (set_initialized t b s) = event_frame s"
  "event_quit (set_initialized t b s) = event_quit s"
  "current_width (set_initialized t b s) = current_width s"
  "current_height (set_initialized t b s) = current_height s"
  "initialized (set_initialized t b s) = b"
  "display_fdbk (set_initialized t b s) = display_fdbk s"
  "thread (set_initialized t b s) = thread s"
  "queue (set_initialized t b s) = queue s"
  "passes (set_initialized t b s) = passes s"
  "trace (set_initialized t b s) = trace s @ [(t, Wr V_initialized (VBool b))]"
  by (simp_all add: set_initialized_def act_def)

lemma set_current_width_fields [simp]:
  "win (set_current_width t v s) = win s"
  "renderer (set_current_width t v s) = renderer s"
  "frameTex (set_current_width t v s) = frameTex s"
  "event_frame (set_current_width t v s) = event_frame s"
  "event_quit (set_current_width t v s) = event_quit s"
  "current_width (set_current_width t v s) = v"
  "current_height (set_current_width t v s) = current_height s"
  "initialized (set_current_width t v s) = initialized s"
  "display_fdbk (set_current_width t v s) = display_fdbk s"
  "thread (set_current_width t v s) = thread s"
  "queue (set_current_width t v s) = queue s"
  "passes (set_current_width t v s) = passes s"
  "trace (set_current_width t v s) = trace s @ [(t, Wr V_current_width (VInt v))]"
  by (simp_all add: set_current_width_def act_def)

lemma set_current_height_fields [simp]:
  "win (set_current_height t v s) = win s"
  "renderer (set_current_height t v s) = renderer s"
  "frameTex (set_current_height t v s) = frameTex s"
  "event_frame (set_current_height t v s) = event_frame s"
  "event_quit (set_current_height t v s) = event_quit s"
  "current_width (set_current_height t v s) = current_width s"
  "current_height (set_current_height t v s) = v"
  "initialized (set_current_height t v s) = initialized s"
  "display_fdbk (set_current_height t v s) = display_fdbk s"
  "thread (set_current_height t v s) = thread s"
  "queue (set_current_height t v s) = queue s"
  "passes (set_current_height t v s) = passes s"
  "trace (set_current_height t v s) = trace s @ [(t, Wr V_current_height (VInt v))]"
  by (simp_all add: set_current_height_def act_def)

lemma set_display_fdbk_fields [simp]:
  "win (set_display_fdbk t m s) = win s"
  "renderer (set_display_fdbk t m s) = renderer s"
  "frameTex (set_display_fdbk t m s) = frameTex s"
  "event_frame (set_display_fdbk t m s) = event_frame s"
  "event_quit (set_display_fdbk t m s) = event_quit s"
  "current_width (set_display_fdbk t m s) = current_width s"
  "current_height (set_display_fdbk t m s) = current_height s"
  "initialized (set_display_fdbk t m s) = initialized s"
  "display_fdbk (set_display_fdbk t m s) = m"
  "thread (set_display_fdbk t m s) = thread s"
  "queue (set_display_fdbk t m s) = queue s"
  "passes (set_display_fdbk t m s) = passes s"
  "trace (set_display_fdbk t m s) = trace s @ [(t, Wr V_display_fdbk (VFdbk m))]"
  by (simp_all add: set_display_fdbk_def act_def)

lemma push_event_fields [simp]:
  "win (push_event t e s) = win s"
  "renderer (push_event t e s) = renderer s"
  "frameTex (push_event t e s) = frameTex s"
  "event_frame (push_event t e s) = event_frame s"
  "event_quit (push_event t e s) = event_quit s"
  "current_width (push_event t e s) = current_width s"
  "current_height (push_event t e s) = current_height s"
  "initialized (push_event t e s) = initialized s"
  "display_fdbk (push_event t e s) = display_fdbk s"
  "thread (push_event t e s) = thread s"
  "queue (push_event t e s) = queue s @ [e]"
  "passes (push_event t e s) = passes s"
  "trace (push_event t e s) = trace s @ [(t, SDL_PushEvent e)]"
  by (simp_all add: push_event_def act_def)

subsection \<open>The functions of the display thread\<close>

definition video_display_init :: "start_env \<Rightarrow> int \<Rightarrow> int \<Rightarrow> world \<Rightarrow> int \<times> world" where
  "video_display_init e width height s =
     (let s1 = act Renderer SDL_Init s in
      if SDL_Init_rc e < 0 then (- 1, s1)
      else
        let s2 = (act Renderer (SDL_CreateWindow width height) s1)\<lparr>win := SDL_CreateWindow_r e\<rparr> in
        if win s2 = NULL then (- 1, s2)
        else
          let s3 = (act Renderer (SDL_CreateRenderer (win s2)) s2)
                     \<lparr>renderer := SDL_CreateRenderer_r e\<rparr> in
          if renderer s3 = NULL then (- 1, s3)
          else
            let s4 = (act Renderer SDL_RegisterEvents s3)\<lparr>event_frame := SDL_RegisterEvents_r e\<rparr> in
            if event_frame s4 = - 1 then (- 1, s4)
            else (0, s4\<lparr>event_quit := event_frame s4 + 1\<rparr>))"

text \<open>The first argument is what \<^verbatim>\<open>SDL_CreateTexture\<close> returns.\<close>

definition video_display_set_size :: "ptr \<Rightarrow> int \<Rightarrow> int \<Rightarrow> world \<Rightarrow> int \<times> world" where
  "video_display_set_size tex w h s =
     (let s1 = act Renderer (SDL_SetWindowSize (win s) w h) s;
          s2 = act Renderer (SDL_DestroyTexture (frameTex s1)) s1;
          s3 = (act Renderer (SDL_CreateTexture (renderer s2) w h) s2)\<lparr>frameTex := tex\<rparr>
      in if frameTex s3 = NULL then (- 1, s3)
         else (0, set_current_height Renderer h (set_current_width Renderer w s3)))"

definition video_display_clean :: "world \<Rightarrow> world" where
  "video_display_clean s =
     act Renderer SDL_Quit
       (act Renderer (SDL_DestroyWindow (win s))
         (act Renderer (SDL_DestroyRenderer (renderer s))
           (act Renderer (SDL_DestroyTexture (frameTex s)) s)))"

text \<open>
  \<^verbatim>\<open>video_display_thread\<close>, lines 135 to 152: the starting phase. The result is the local
  \<^verbatim>\<open>stopped\<close> and the new state.
\<close>

definition thread_starting :: "start_env \<Rightarrow> world \<Rightarrow> bool \<times> world" where
  "thread_starting e s =
     (let s1 = act Renderer Lock s;
          s2 = act Renderer (Rd V_current_height) (act Renderer (Rd V_current_width) s1);
          (r, s3) = video_display_init e (current_width s2) (current_height s2) s2;
          (stopped, s6) =
            (if r < 0 then (True, set_display_fdbk Renderer FDBK_FAIL s3)
             else
               let s4 = act Renderer (Rd V_current_height) (act Renderer (Rd V_current_width) s3);
                   (r2, s5) = video_display_set_size (SDL_CreateTexture_r0 e)
                                (current_width s4) (current_height s4) s4
               in if r2 < 0 then (True, set_display_fdbk Renderer FDBK_FAIL s5)
                  else (False, set_display_fdbk Renderer FDBK_OK (set_initialized Renderer True s5)));
          s7 = act Renderer CondSignal s6
      in (stopped, act Renderer Unlock s7))"

text \<open>\<^verbatim>\<open>video_display_thread\<close>, lines 198 to 201: the end of the thread.\<close>

definition thread_end :: "world \<Rightarrow> world" where
  "thread_end s =
     (act Renderer pthread_exit (set_initialized Renderer False (video_display_clean s)))
       \<lparr>thread := NoThread\<rparr>"

text \<open>
  \<^verbatim>\<open>video_display_thread\<close>, lines 161 to 184: the branch for \<^verbatim>\<open>event_frame\<close>. The test of
  line 166 reads \<^verbatim>\<open>current_height\<close> only when the widths agree.
\<close>

definition handle_frame :: "pass_env \<Rightarrow> sdl_event \<Rightarrow> bool \<Rightarrow> world \<Rightarrow> bool \<times> world" where
  "handle_frame p evt stopped s =
     (let s1 = act Renderer Lock s;
          newsize = data2 evt;
          s2 = act Renderer (Rd V_current_width) s1;
          (differs, s3) =
            (if size_w newsize \<noteq> current_width s2 then (True, s2)
             else let s2' = act Renderer (Rd V_current_height) s2
                  in (size_h newsize \<noteq> current_height s2', s2'));
          (stopped1, s4) =
            (if differs then
               (let (r, s3') = video_display_set_size (SDL_CreateTexture_r p)
                                 (size_w newsize) (size_h newsize) s3
                in if r < 0 then (True, set_display_fdbk Renderer FDBK_FAIL s3')
                   else (stopped, s3'))
             else (stopped, s3));
          (stopped2, s6) =
            (if \<not> stopped1 then
               (let s5 = act Renderer (SDL_UpdateTexture (frameTex s4) (data1 evt) (current_width s4))
                           (act Renderer (Rd V_current_width) s4)
                in if SDL_UpdateTexture_rc p < 0
                   then (True, set_display_fdbk Renderer FDBK_FAIL s5)
                   else (stopped1, set_display_fdbk Renderer FDBK_OK s5))
             else (stopped1, s4));
          s7 = act Renderer CondSignal s6
      in (stopped2, act Renderer Unlock s7))"

text \<open>
  \<^verbatim>\<open>video_display_thread\<close>, lines 161 to 191: the three-way test on the type of the
  event. The third argument is \<^verbatim>\<open>stopped\<close> as the call of \<^verbatim>\<open>SDL_WaitEvent\<close> left it.
\<close>

definition handle_event :: "pass_env \<Rightarrow> sdl_event \<Rightarrow> bool \<Rightarrow> world \<Rightarrow> bool \<times> world" where
  "handle_event p evt stopped s =
     (if evt_type evt = event_frame s then handle_frame p evt stopped s
      else if evt_type evt = event_quit s then (True, s)
      else if evt_type evt = SDL_QUIT then (True, act Renderer video_set_stopped s)
      else (stopped, s))"

text \<open>\<^verbatim>\<open>video_display_thread\<close>, lines 194 to 196.\<close>

definition redraw :: "world \<Rightarrow> world" where
  "redraw s =
     act Renderer (SDL_RenderPresent (renderer s))
       (act Renderer (SDL_RenderCopy (renderer s) (frameTex s))
         (act Renderer (SDL_RenderClear (renderer s)) s))"

text \<open>
  \<^verbatim>\<open>video_display_thread\<close>, lines 156 to 196: one pass through the body of the loop. The
  result is \<^verbatim>\<open>stopped\<close>, \<^verbatim>\<open>current_evt\<close> and the new state.
\<close>

definition loop_pass :: "pass_env \<Rightarrow> sdl_event \<Rightarrow> world \<Rightarrow> bool \<times> sdl_event \<times> world" where
  "loop_pass p cur s =
     (let (rc, evt, s1) = wait_event p cur s;
          stopped = (rc = 0);
          (stopped1, s2) = handle_event p evt stopped s1
      in (stopped1, evt, redraw s2))"

text \<open>
  The display thread can run when it has been created and is not inside a
  \<^verbatim>\<open>SDL_WaitEvent\<close> that neither fails nor has an event to deliver.
\<close>

definition can_run :: "env \<Rightarrow> world \<Rightarrow> bool" where
  "can_run E s =
     (case thread s of
        NoThread \<Rightarrow> False
      | Starting \<Rightarrow> True
      | InLoop cur \<Rightarrow> SDL_WaitEvent_rc (at_pass E (passes s)) = 0 \<or> queue s \<noteq> [])"

text \<open>
  The test of line 155, \<^verbatim>\<open>while(!stopped)\<close>: the thread ends, or it goes to
  \<^verbatim>\<open>SDL_WaitEvent\<close> with its \<^verbatim>\<open>current_evt\<close>.
\<close>

definition thread_continue :: "bool \<Rightarrow> sdl_event \<Rightarrow> world \<Rightarrow> world" where
  "thread_continue stopped evt s = (if stopped then thread_end s else s\<lparr>thread := InLoop evt\<rparr>)"

text \<open>
  One scheduling unit of \<^verbatim>\<open>video_display_thread\<close>: from its entry to the test of the
  loop, or one pass through the loop and the test.
\<close>

definition renderer_step :: "env \<Rightarrow> world \<Rightarrow> world" where
  "renderer_step E s =
     (if \<not> can_run E s then s
      else case thread s of
        NoThread \<Rightarrow> s
      | Starting \<Rightarrow>
          (let (stopped, s1) = thread_starting (at_start E) s
           in thread_continue stopped (stack_evt (at_start E)) s1)
      | InLoop cur \<Rightarrow>
          (let (stopped, evt, s1) = loop_pass (at_pass E (passes s)) cur s
           in thread_continue stopped evt (s1\<lparr>passes := Suc (passes s1)\<rparr>)))"

text \<open>What a step has added to the trace.\<close>

definition new_actions :: "world \<Rightarrow> world \<Rightarrow> (thread_id \<times> action) list" where
  "new_actions s s' = drop (length (trace s)) (trace s')"

text \<open>The actions of lines 199 to 201, in a state with the given handles.\<close>

definition cleanup :: "world \<Rightarrow> (thread_id \<times> action) list" where
  "cleanup s =
     [(Renderer, SDL_DestroyTexture (frameTex s)), (Renderer, SDL_DestroyRenderer (renderer s)),
      (Renderer, SDL_DestroyWindow (win s)), (Renderer, SDL_Quit),
      (Renderer, Wr V_initialized (VBool False)), (Renderer, pthread_exit)]"

subsection \<open>What each function of the display thread changes\<close>

lemmas prim_defs = act_def set_initialized_def set_current_width_def set_current_height_def
  set_display_fdbk_def

lemma new_actionsI: "trace s' = trace s @ d \<Longrightarrow> new_actions s s' = d"
  by (simp add: new_actions_def)

lemma new_actions_same [simp]: "new_actions s s = []"
  by (simp add: new_actions_def)

lemma set_size_fields [simp]:
  "win (snd (video_display_set_size tex w h s)) = win s"
  "renderer (snd (video_display_set_size tex w h s)) = renderer s"
  "event_frame (snd (video_display_set_size tex w h s)) = event_frame s"
  "event_quit (snd (video_display_set_size tex w h s)) = event_quit s"
  "initialized (snd (video_display_set_size tex w h s)) = initialized s"
  "display_fdbk (snd (video_display_set_size tex w h s)) = display_fdbk s"
  "thread (snd (video_display_set_size tex w h s)) = thread s"
  "queue (snd (video_display_set_size tex w h s)) = queue s"
  "passes (snd (video_display_set_size tex w h s)) = passes s"
  by (simp_all add: video_display_set_size_def Let_def)

lemma set_size_result:
  "fst (video_display_set_size tex w h s) = (if tex = NULL then - 1 else 0)"
  "frameTex (snd (video_display_set_size tex w h s)) = tex"
  "current_width (snd (video_display_set_size tex w h s)) = (if tex = NULL then current_width s else w)"
  "current_height (snd (video_display_set_size tex w h s)) =
     (if tex = NULL then current_height s else h)"
  "trace (snd (video_display_set_size tex w h s)) =
     trace s @ [(Renderer, SDL_SetWindowSize (win s) w h), (Renderer, SDL_DestroyTexture (frameTex s)),
       (Renderer, SDL_CreateTexture (renderer s) w h)] @
     (if tex = NULL then []
      else [(Renderer, Wr V_current_width (VInt w)), (Renderer, Wr V_current_height (VInt h))])"
  by (simp_all add: video_display_set_size_def Let_def)

lemma init_fields [simp]:
  "frameTex (snd (video_display_init e w h s)) = frameTex s"
  "current_width (snd (video_display_init e w h s)) = current_width s"
  "current_height (snd (video_display_init e w h s)) = current_height s"
  "initialized (snd (video_display_init e w h s)) = initialized s"
  "display_fdbk (snd (video_display_init e w h s)) = display_fdbk s"
  "thread (snd (video_display_init e w h s)) = thread s"
  "queue (snd (video_display_init e w h s)) = queue s"
  "passes (snd (video_display_init e w h s)) = passes s"
  by (simp_all add: video_display_init_def Let_def)

lemma thread_end_fields [simp]:
  "win (thread_end s) = win s"
  "renderer (thread_end s) = renderer s"
  "frameTex (thread_end s) = frameTex s"
  "event_frame (thread_end s) = event_frame s"
  "event_quit (thread_end s) = event_quit s"
  "current_width (thread_end s) = current_width s"
  "current_height (thread_end s) = current_height s"
  "initialized (thread_end s) = False"
  "display_fdbk (thread_end s) = display_fdbk s"
  "thread (thread_end s) = NoThread"
  "queue (thread_end s) = queue s"
  "passes (thread_end s) = passes s"
  "trace (thread_end s) = trace s @ cleanup s"
  by (simp_all add: thread_end_def video_display_clean_def cleanup_def)

lemma thread_continue_fields [simp]:
  "win (thread_continue st evt s) = win s"
  "renderer (thread_continue st evt s) = renderer s"
  "frameTex (thread_continue st evt s) = frameTex s"
  "event_frame (thread_continue st evt s) = event_frame s"
  "event_quit (thread_continue st evt s) = event_quit s"
  "current_width (thread_continue st evt s) = current_width s"
  "current_height (thread_continue st evt s) = current_height s"
  "initialized (thread_continue st evt s) = (if st then False else initialized s)"
  "display_fdbk (thread_continue st evt s) = display_fdbk s"
  "thread (thread_continue st evt s) = (if st then NoThread else InLoop evt)"
  "queue (thread_continue st evt s) = queue s"
  "passes (thread_continue st evt s) = passes s"
  "trace (thread_continue st evt s) = trace s @ (if st then cleanup s else [])"
  by (simp_all add: thread_continue_def)

lemma redraw_fields [simp]:
  "win (redraw s) = win s"
  "renderer (redraw s) = renderer s"
  "frameTex (redraw s) = frameTex s"
  "event_frame (redraw s) = event_frame s"
  "event_quit (redraw s) = event_quit s"
  "current_width (redraw s) = current_width s"
  "current_height (redraw s) = current_height s"
  "initialized (redraw s) = initialized s"
  "display_fdbk (redraw s) = display_fdbk s"
  "thread (redraw s) = thread s"
  "queue (redraw s) = queue s"
  "passes (redraw s) = passes s"
  "trace (redraw s) =
     trace s @ [(Renderer, SDL_RenderClear (renderer s)),
       (Renderer, SDL_RenderCopy (renderer s) (frameTex s)),
       (Renderer, SDL_RenderPresent (renderer s))]"
  by (simp_all add: redraw_def)

lemma starting_fields [simp]:
  "thread (snd (thread_starting e s)) = thread s"
  "queue (snd (thread_starting e s)) = queue s"
  "passes (snd (thread_starting e s)) = passes s"
  by (simp_all add: thread_starting_def Let_def split_beta)
lemma handle_frame_fields [simp]:
  "win (snd (handle_frame p evt st s)) = win s"
  "renderer (snd (handle_frame p evt st s)) = renderer s"
  "event_frame (snd (handle_frame p evt st s)) = event_frame s"
  "event_quit (snd (handle_frame p evt st s)) = event_quit s"
  "initialized (snd (handle_frame p evt st s)) = initialized s"
  "thread (snd (handle_frame p evt st s)) = thread s"
  "queue (snd (handle_frame p evt st s)) = queue s"
  "passes (snd (handle_frame p evt st s)) = passes s"
  by (simp_all add: handle_frame_def Let_def split_beta)

lemma handle_frame_stopped: "fst (handle_frame p evt True s)"
  by (simp add: handle_frame_def Let_def split_beta)

lemma handle_event_fields [simp]:
  "win (snd (handle_event p evt st s)) = win s"
  "renderer (snd (handle_event p evt st s)) = renderer s"
  "event_frame (snd (handle_event p evt st s)) = event_frame s"
  "event_quit (snd (handle_event p evt st s)) = event_quit s"
  "initialized (snd (handle_event p evt st s)) = initialized s"
  "thread (snd (handle_event p evt st s)) = thread s"
  "queue (snd (handle_event p evt st s)) = queue s"
  "passes (snd (handle_event p evt st s)) = passes s"
  by (simp_all add: handle_event_def)

lemma handle_event_stopped: "fst (handle_event p evt True s)"
  by (simp add: handle_event_def handle_frame_stopped)

text \<open>A pass that \<^verbatim>\<open>SDL_WaitEvent\<close> fails, and a pass that receives the event \<open>e\<close>.\<close>

lemma loop_pass_error:
  "SDL_WaitEvent_rc p = 0 \<Longrightarrow>
   loop_pass p cur s =
     (fst (handle_event p cur True (act Renderer SDL_WaitEvent s)), cur,
      redraw (snd (handle_event p cur True (act Renderer SDL_WaitEvent s))))"
  by (simp add: loop_pass_def wait_event_def Let_def split_beta)

lemma loop_pass_event:
  "SDL_WaitEvent_rc p \<noteq> 0 \<Longrightarrow> queue s = e # q \<Longrightarrow>
   loop_pass p cur s =
     (fst (handle_event p e False ((act Renderer SDL_WaitEvent s)\<lparr>queue := q\<rparr>)), e,
      redraw (snd (handle_event p e False ((act Renderer SDL_WaitEvent s)\<lparr>queue := q\<rparr>))))"
  by (simp add: loop_pass_def wait_event_def Let_def split_beta)

lemma step_error:
  "thread s = InLoop cur \<Longrightarrow> SDL_WaitEvent_rc (at_pass E (passes s)) = 0 \<Longrightarrow>
   renderer_step E s =
     thread_end ((redraw (snd (handle_event (at_pass E (passes s)) cur True
                   (act Renderer SDL_WaitEvent s))))\<lparr>passes := Suc (passes s)\<rparr>)"
  by (simp add: renderer_step_def can_run_def loop_pass_error handle_event_stopped
      thread_continue_def)

lemma step_event:
  "thread s = InLoop cur \<Longrightarrow> SDL_WaitEvent_rc (at_pass E (passes s)) \<noteq> 0 \<Longrightarrow>
   queue s = e # q \<Longrightarrow>
   renderer_step E s =
     thread_continue
       (fst (handle_event (at_pass E (passes s)) e False
               ((act Renderer SDL_WaitEvent s)\<lparr>queue := q\<rparr>))) e
       ((redraw (snd (handle_event (at_pass E (passes s)) e False
                   ((act Renderer SDL_WaitEvent s)\<lparr>queue := q\<rparr>))))\<lparr>passes := Suc (passes s)\<rparr>)"
  by (simp add: renderer_step_def can_run_def loop_pass_event)

lemma step_starting:
  "thread s = Starting \<Longrightarrow>
   renderer_step E s =
     thread_continue (fst (thread_starting (at_start E) s)) (stack_evt (at_start E))
       (snd (thread_starting (at_start E) s))"
  by (simp add: renderer_step_def can_run_def split_beta)

lemma step_idle: "\<not> can_run E s \<Longrightarrow> renderer_step E s = s"
  by (simp add: renderer_step_def)

subsection \<open>Scheduling facts needed to define the waiting loops\<close>

text \<open>
  The rank of a state bounds how many scheduling units the display thread can still run
  without a new event being pushed.
\<close>

definition rank :: "world \<Rightarrow> nat" where
  "rank s = (case thread s of NoThread \<Rightarrow> 0 | Starting \<Rightarrow> length (queue s) + 2
             | InLoop cur \<Rightarrow> length (queue s) + 1)"

lemma renderer_step_rank: "can_run E s \<Longrightarrow> rank (renderer_step E s) < rank s"
proof (cases "thread s")
  case NoThread
  assume "can_run E s"
  with NoThread show ?thesis by (simp add: can_run_def)
next
  case Starting
  then show ?thesis
    by (simp add: step_starting rank_def)
next
  case (InLoop cur)
  assume c: "can_run E s"
  show ?thesis
  proof (cases "SDL_WaitEvent_rc (at_pass E (passes s)) = 0")
    case True
    with InLoop show ?thesis by (simp add: step_error rank_def)
  next
    case False
    with c InLoop obtain e q where "queue s = e # q"
      by (cases "queue s") (auto simp: can_run_def)
    with InLoop False show ?thesis by (simp add: step_event rank_def)
  qed
qed

text \<open>Steps of the display thread, and the caller preempted by the display thread.\<close>

primrec renderer_steps :: "nat \<Rightarrow> env \<Rightarrow> world \<Rightarrow> world" where
  "renderer_steps 0 E s = s"
| "renderer_steps (Suc n) E s = renderer_steps n E (renderer_step E s)"

definition preempt :: "env \<Rightarrow> world \<Rightarrow> world" where
  "preempt E s = renderer_steps (sched E (length (trace s))) E s"

lemma renderer_step_rank_le: "rank (renderer_step E s) \<le> rank s"
  by (cases "can_run E s") (simp_all add: step_idle less_imp_le renderer_step_rank)

lemma renderer_steps_rank: "rank (renderer_steps n E s) \<le> rank s"
proof (induction n arbitrary: s)
  case 0
  show ?case by simp
next
  case (Suc n)
  have "rank (renderer_steps n E (renderer_step E s)) \<le> rank (renderer_step E s)"
    by (rule Suc.IH)
  also have "\<dots> \<le> rank s" by (rule renderer_step_rank_le)
  finally show ?case by simp
qed

text \<open>
  The display thread while the caller sleeps in \<^verbatim>\<open>pthread_cond_wait\<close>: it runs until one of
  its steps has called \<^verbatim>\<open>pthread_cond_signal\<close> (result \<open>True\<close>), or until it cannot run any
  more (result \<open>False\<close>: nobody will wake the caller).
\<close>

function until_signal :: "env \<Rightarrow> world \<Rightarrow> bool \<times> world" where
  "until_signal E s =
     (if \<not> can_run E s then (False, s)
      else
        let s' = renderer_step E s in
        if (Renderer, CondSignal) \<in> set (new_actions s s') then (True, s')
        else until_signal E s')"
  by pat_completeness auto
termination
  by (relation "measure (\<lambda>(E, s). rank s)") (simp_all add: renderer_step_rank)

declare until_signal.simps [simp del]

lemma until_signal_rank: "fst (until_signal E s) \<Longrightarrow> rank (snd (until_signal E s)) < rank s"
proof (induction E s rule: until_signal.induct)
  case (1 E s)
  show ?case
  proof (cases "can_run E s")
    case False
    with "1.prems" show ?thesis by (simp add: until_signal.simps [of E s])
  next
    case True
    note r = renderer_step_rank [OF True]
    show ?thesis
    proof (cases "(Renderer, CondSignal) \<in> set (new_actions s (renderer_step E s))")
      case s: True
      with True r show ?thesis by (simp add: until_signal.simps [of E s])
    next
      case n: False
      with True "1.prems" have f: "fst (until_signal E (renderer_step E s))"
        by (simp add: until_signal.simps [of E s])
      have "rank (snd (until_signal E (renderer_step E s))) < rank (renderer_step E s)"
        using True n f by (intro "1.IH") simp_all
      with r True n show ?thesis by (simp add: until_signal.simps [of E s])
    qed
  qed
qed

subsection \<open>The functions of the calling thread\<close>

text \<open>
  \<^verbatim>\<open>while(display_fdbk == FDBK_NONE) pthread_cond_wait(&feedback_cond, &feedback_mutex);\<close>
  The caller holds the mutex. When it finds \<open>FDBK_NONE\<close> it sleeps; it wakes when the display
  thread has signalled, takes the mutex again (the display thread may have gone on in
  between) and tests the variable again. When the display thread stops running without a
  signal, the caller never wakes: the result is \<open>False\<close>.
\<close>

function wait_loop :: "env \<Rightarrow> world \<Rightarrow> bool \<times> world" where
  "wait_loop E s =
     (let s1 = act Producer (Rd V_display_fdbk) s in
      if display_fdbk s1 = FDBK_NONE then
        (let s2 = act Producer CondWait s1;
             w = until_signal E s2
         in if fst w then wait_loop E (preempt E (snd w)) else (False, snd w))
      else (True, s1))"
  by pat_completeness auto
termination
proof (relation "measure (\<lambda>(E, s). rank s)")
  show "wf (measure (\<lambda>(E, s). rank s))" by simp
next
  fix E :: env and s x xa :: world and xb :: "bool \<times> world"
  assume "xa = act Producer CondWait x" "x = act Producer (Rd V_display_fdbk) s"
  then have a: "rank xa = rank s" by (simp add: rank_def split: thread_state.split)
  assume "xb = until_signal E xa" "fst xb"
  then have "rank (snd xb) < rank xa" by (simp add: until_signal_rank)
  moreover have "rank (preempt E (snd xb)) \<le> rank (snd xb)"
    unfolding preempt_def by (rule renderer_steps_rank)
  ultimately show "((E, preempt E (snd xb)), E, s) \<in> measure (\<lambda>(E, s). rank s)"
    using a by simp
qed

text \<open>
  Lines 236 to 242 of \<^verbatim>\<open>video_display_create_thread\<close> and lines 277 to 284 of
  \<^verbatim>\<open>video_display_frame\<close> (the same text twice): lock, wait, read the result, unlock. The
  display thread may run before the caller has the mutex.
\<close>

definition wait_feedback :: "env \<Rightarrow> world \<Rightarrow> outcome \<times> world" where
  "wait_feedback E s =
     (let (woke, s1) = wait_loop E (act Producer Lock (preempt E s)) in
      if \<not> woke then (Blocked, s1)
      else
        let s2 = act Producer (Rd V_display_fdbk) s1;
            ret_value = (if display_fdbk s2 = FDBK_OK then 0 else - 1)
        in (Returned ret_value, act Producer Unlock s2))"

text \<open>
  \<^verbatim>\<open>SDL_zero(quitevent)\<close> clears the whole event: \<^verbatim>\<open>data1\<close> and \<^verbatim>\<open>data2\<close> are null
  pointers; the size behind \<^verbatim>\<open>data2\<close> is written as 0 by 0 (the display thread does not
  read it for this type of event).
\<close>

definition video_display_stop_thread :: "env \<Rightarrow> world \<Rightarrow> world" where
  "video_display_stop_thread E s =
     (let s1 = act Producer (Rd V_initialized) s in
      if \<not> initialized s1 then s1
      else
        let s2 = preempt E s1
        in push_event Producer
             \<lparr>evt_type = event_quit s2, data1 = NULL, data2 = \<lparr>size_w = 0, size_h = 0\<rparr>\<rparr> s2)"

text \<open>
  \<^verbatim>\<open>pthread_create\<close> returns 0 when it has created the thread and an error number
  otherwise; the C code takes only a negative result for a failure.
\<close>

definition video_display_create_thread :: "env \<Rightarrow> world \<Rightarrow> outcome \<times> world" where
  "video_display_create_thread E s =
     (let s1 = set_display_fdbk Producer FDBK_NONE (preempt E s);
          s2 = act Producer pthread_create (preempt E s1);
          s3 = (if pthread_create_rc (at_start E) = 0 then s2\<lparr>thread := Starting\<rparr> else s2)
      in if pthread_create_rc (at_start E) < 0 then (Returned (- 1), s3)
         else wait_feedback E s3)"

text \<open>The parameter \<^verbatim>\<open>size\<close> of the C function is \<open>sz\<close> here.\<close>

definition video_display_frame ::
    "env \<Rightarrow> ptr \<Rightarrow> int \<Rightarrow> int \<Rightarrow> int \<Rightarrow> world \<Rightarrow> outcome \<times> world" where
  "video_display_frame E frame width height sz s =
     (if frame = NULL then (Returned 0, video_display_stop_thread E s)
      else
        let s1 = act Producer (Rd V_initialized) s;
            (r, s2) =
              (if \<not> initialized s1 then
                 video_display_create_thread E
                   (set_current_height Producer height
                     (preempt E (set_current_width Producer width (preempt E s1))))
               else (Returned 0, s1))
        in case r of
             Blocked \<Rightarrow> (Blocked, s2)
           | Returned c \<Rightarrow>
               if c < 0 then (Returned (- 1), s2)
               else
                 let s3 = preempt E (set_display_fdbk Producer FDBK_NONE (preempt E s2));
                     s4 = push_event Producer
                            \<lparr>evt_type = event_frame s3, data1 = frame,
                             data2 = \<lparr>size_w = width, size_h = height\<rparr>\<rparr> s3
                 in wait_feedback E s4)"

text \<open>
  The display thread left to itself: it runs until it ends or blocks in
  \<^verbatim>\<open>SDL_WaitEvent\<close> on the empty queue.
\<close>

function renderer_run :: "env \<Rightarrow> world \<Rightarrow> world" where
  "renderer_run E s = (if can_run E s then renderer_run E (renderer_step E s) else s)"
  by pat_completeness auto
termination
  by (relation "measure (\<lambda>(E, s). rank s)") (simp_all add: renderer_step_rank)

declare renderer_run.simps [simp del] wait_loop.simps [simp del]

subsection \<open>Vocabulary of the properties\<close>

text \<open>The starting phase fails when one of its five library calls reports a failure.\<close>

definition start_fails :: "start_env \<Rightarrow> bool" where
  "start_fails e \<longleftrightarrow>
     SDL_Init_rc e < 0 \<or> SDL_CreateWindow_r e = NULL \<or> SDL_CreateRenderer_r e = NULL \<or>
     SDL_RegisterEvents_r e = - 1 \<or> SDL_CreateTexture_r0 e = NULL"

text \<open>
  The display thread, inside its loop, is about to receive the event \<open>e\<close>, and \<open>e\<close> is a
  frame event.
\<close>

definition frame_received :: "env \<Rightarrow> sdl_event \<Rightarrow> world \<Rightarrow> bool" where
  "frame_received E e s \<longleftrightarrow>
     (\<exists>cur. thread s = InLoop cur) \<and> SDL_WaitEvent_rc (at_pass E (passes s)) \<noteq> 0 \<and>
     queue s \<noteq> [] \<and> hd (queue s) = e \<and> evt_type e = event_frame s"

definition size_differs :: "sdl_event \<Rightarrow> world \<Rightarrow> bool" where
  "size_differs e s \<longleftrightarrow>
     size_w (data2 e) \<noteq> current_width s \<or> size_h (data2 e) \<noteq> current_height s"

definition resize_fails :: "env \<Rightarrow> sdl_event \<Rightarrow> world \<Rightarrow> bool" where
  "resize_fails E e s \<longleftrightarrow>
     size_differs e s \<and> SDL_CreateTexture_r (at_pass E (passes s)) = NULL"

definition upload_fails :: "env \<Rightarrow> world \<Rightarrow> bool" where
  "upload_fails E s \<longleftrightarrow> SDL_UpdateTexture_rc (at_pass E (passes s)) < 0"

fun sync_step :: "action \<Rightarrow> bool" where
  "sync_step (Wr V_initialized v) = True"
| "sync_step (Wr V_display_fdbk v) = True"
| "sync_step CondSignal = True"
| "sync_step a = False"

fun is_feedback :: "action \<Rightarrow> bool" where
  "is_feedback (Wr V_display_fdbk v) = True"
| "is_feedback CondSignal = True"
| "is_feedback a = False"

fun is_render :: "action \<Rightarrow> bool" where
  "is_render (SDL_RenderClear r) = True"
| "is_render (SDL_RenderCopy r t) = True"
| "is_render (SDL_RenderPresent r) = True"
| "is_render a = False"

fun is_resize :: "action \<Rightarrow> bool" where
  "is_resize (SDL_SetWindowSize w a b) = True"
| "is_resize (SDL_CreateTexture r a b) = True"
| "is_resize a = False"

fun is_upload :: "action \<Rightarrow> bool" where
  "is_upload (SDL_UpdateTexture t f p) = True"
| "is_upload a = False"

fun is_push :: "action \<Rightarrow> bool" where
  "is_push (SDL_PushEvent e) = True"
| "is_push a = False"

datatype resource = Subsystem | Window | Context | Texture

fun acquired :: "action \<Rightarrow> resource option" where
  "acquired SDL_Init = Some Subsystem"
| "acquired (SDL_CreateWindow a b) = Some Window"
| "acquired (SDL_CreateRenderer w) = Some Context"
| "acquired (SDL_CreateTexture r a b) = Some Texture"
| "acquired a = None"

fun released :: "action \<Rightarrow> resource option" where
  "released SDL_Quit = Some Subsystem"
| "released (SDL_DestroyWindow w) = Some Window"
| "released (SDL_DestroyRenderer r) = Some Context"
| "released (SDL_DestroyTexture t) = Some Texture"
| "released a = None"

text \<open>
  The lock discipline of a trace. A thread holds the mutex from its \<^verbatim>\<open>pthread_mutex_lock\<close>
  to its \<^verbatim>\<open>pthread_mutex_unlock\<close> (\<^verbatim>\<open>pthread_cond_wait\<close> returns with the mutex locked
  again). \<open>guarded X h as\<close> reads the actions of one thread, \<open>h\<close> telling whether it holds the
  mutex: every access to a shared variable is made with the mutex held, except the accesses
  in \<open>X\<close>, which are made without it.
\<close>

fun is_access :: "action \<Rightarrow> bool" where
  "is_access (Rd v) = True"
| "is_access (Wr v x) = True"
| "is_access a = False"

fun held_after :: "bool \<Rightarrow> action list \<Rightarrow> bool" where
  "held_after h [] = h"
| "held_after h (Lock # xs) = held_after True xs"
| "held_after h (Unlock # xs) = held_after False xs"
| "held_after h (a # xs) = held_after h xs"

fun guarded :: "(action \<Rightarrow> bool) \<Rightarrow> bool \<Rightarrow> action list \<Rightarrow> bool" where
  "guarded X h [] = True"
| "guarded X h (Lock # xs) = guarded X True xs"
| "guarded X h (Unlock # xs) = guarded X False xs"
| "guarded X h (a # xs) = ((is_access a \<longrightarrow> h = (\<not> X a)) \<and> guarded X h xs)"

definition actions_of :: "thread_id \<Rightarrow> (thread_id \<times> action) list \<Rightarrow> action list" where
  "actions_of t tr = map snd (filter (\<lambda>x. fst x = t) tr)"

definition lock_discipline :: "(thread_id \<Rightarrow> action \<Rightarrow> bool) \<Rightarrow> (thread_id \<times> action) list \<Rightarrow> bool" where
  "lock_discipline X tr \<longleftrightarrow>
     guarded (X Producer) False (actions_of Producer tr) \<and>
     guarded (X Renderer) False (actions_of Renderer tr)"

text \<open>
  The accesses that the C file makes without the mutex: the caller reads \<^verbatim>\<open>initialized\<close>
  (lines 210 and 258), writes the first size (lines 259 and 260) and resets the feedback
  (lines 224 and 266); the display thread clears \<^verbatim>\<open>initialized\<close> (line 200).
\<close>

fun exempt :: "thread_id \<Rightarrow> action \<Rightarrow> bool" where
  "exempt Producer (Rd V_initialized) = True"
| "exempt Producer (Wr V_current_width v) = True"
| "exempt Producer (Wr V_current_height v) = True"
| "exempt Producer (Wr V_display_fdbk (VFdbk FDBK_NONE)) = True"
| "exempt Renderer (Wr V_initialized (VBool False)) = True"
| "exempt t a = False"

text \<open>No access is exempt: every access is made with the mutex held.\<close>

definition no_exemption :: "thread_id \<Rightarrow> action \<Rightarrow> bool" where
  "no_exemption t a = False"

subsection \<open>Concrete states and environments\<close>

text \<open>The file-level variables as the C file initialises them, and no display thread.\<close>

definition world0 :: world where
  "world0 = \<lparr>win = NULL, renderer = NULL, frameTex = NULL, event_frame = 0, event_quit = 0,
     current_width = 0, current_height = 0, initialized = False, display_fdbk = FDBK_NONE,
     thread = NoThread, queue = [], passes = 0, trace = []\<rparr>"

definition no_evt :: sdl_event where
  "no_evt = \<lparr>evt_type = 0, data1 = NULL, data2 = \<lparr>size_w = 0, size_h = 0\<rparr>\<rparr>"

definition start_ok :: start_env where
  "start_ok = \<lparr>pthread_create_rc = 0, SDL_Init_rc = 0, SDL_CreateWindow_r = 1,
     SDL_CreateRenderer_r = 2, SDL_RegisterEvents_r = 0x8000, SDL_CreateTexture_r0 = 3,
     stack_evt = no_evt\<rparr>"

definition pass_ok :: pass_env where
  "pass_ok = \<lparr>SDL_WaitEvent_rc = 1, SDL_CreateTexture_r = 4, SDL_UpdateTexture_rc = 0\<rparr>"

text \<open>
  Every library call succeeds, and the display thread runs only while the caller sleeps.
\<close>

definition env_ok :: env where
  "env_ok = \<lparr>at_start = start_ok, at_pass = (\<lambda>n. pass_ok), sched = (\<lambda>n. 0)\<rparr>"

text \<open>The first texture cannot be created.\<close>

definition env_no_texture :: env where
  "env_no_texture = env_ok\<lparr>at_start := start_ok\<lparr>SDL_CreateTexture_r0 := NULL\<rparr>\<rparr>"

text \<open>No texture can be created inside the loop.\<close>

definition env_no_resize :: env where
  "env_no_resize = env_ok\<lparr>at_pass := (\<lambda>n. pass_ok\<lparr>SDL_CreateTexture_r := NULL\<rparr>)\<rparr>"

text \<open>The state after one frame of 640 by 480 has been displayed, with the trace cleared.\<close>

definition frame_evt :: "ptr \<Rightarrow> int \<Rightarrow> int \<Rightarrow> sdl_event" where
  "frame_evt frame width height =
     \<lparr>evt_type = 0x8000, data1 = frame, data2 = \<lparr>size_w = width, size_h = height\<rparr>\<rparr>"

definition quit_evt :: sdl_event where
  "quit_evt = \<lparr>evt_type = 0x8001, data1 = NULL, data2 = \<lparr>size_w = 0, size_h = 0\<rparr>\<rparr>"

definition world_running :: world where
  "world_running = \<lparr>win = 1, renderer = 2, frameTex = 3, event_frame = 0x8000,
     event_quit = 0x8001, current_width = 640, current_height = 480, initialized = True,
     display_fdbk = FDBK_OK, thread = InLoop (frame_evt 7 640 480), queue = [], passes = 1,
     trace = []\<rparr>"

text \<open>The running state with one frame event waiting, of a new size and of the same size.\<close>

definition world_resize :: world where
  "world_resize = world_running\<lparr>queue := [frame_evt 8 1280 720]\<rparr>"

definition world_same_size :: world where
  "world_same_size = world_running\<lparr>queue := [frame_evt 8 640 480]\<rparr>"

text \<open>The running state with one event waiting that the file does not know.\<close>

definition world_other_event :: world where
  "world_other_event = world_running\<lparr>queue := [no_evt]\<rparr>"

text \<open>The running state with a quit request waiting.\<close>

definition world_quit :: world where
  "world_quit = world_running\<lparr>queue := [quit_evt]\<rparr>"

text \<open>No frame can be uploaded.\<close>

definition env_no_upload :: env where
  "env_no_upload = env_ok\<lparr>at_pass := (\<lambda>n. pass_ok\<lparr>SDL_UpdateTexture_rc := - 1\<rparr>)\<rparr>"

text \<open>
  Every library call succeeds, and the display thread takes a step wherever the caller can be
  preempted.
\<close>

definition env_early :: env where
  "env_early = env_ok\<lparr>sched := (\<lambda>n. 1)\<rparr>"

lemmas step_defs = renderer_step_def can_run_def thread_starting_def thread_end_def
  thread_continue_def video_display_init_def video_display_set_size_def video_display_clean_def
  new_actions_def

lemmas concrete_defs = world0_def no_evt_def start_ok_def pass_ok_def env_ok_def
  env_no_texture_def env_no_resize_def frame_evt_def quit_evt_def world_running_def NULL_def
  SDL_QUIT_def world_resize_def world_same_size_def world_other_event_def world_quit_def env_no_upload_def env_early_def

section \<open>Facts about the frame branch and about one pass\<close>

lemmas hf_defs = handle_frame_def Let_def split_beta new_actions_def set_size_result

lemma handle_frame_trace:
  "trace (snd (handle_frame p evt st s)) = trace s @ new_actions s (snd (handle_frame p evt st s))"
  by (simp add: hf_defs)

lemma handle_frame_no_render:
  "filter (\<lambda>x. is_render (snd x)) (new_actions s (snd (handle_frame p evt st s))) = []"
  by (simp add: hf_defs)

lemma handle_frame_resize:
  "filter (\<lambda>x. is_resize (snd x)) (new_actions s (snd (handle_frame p e st s))) =
     (if size_differs e s
      then [(Renderer, SDL_SetWindowSize (win s) (size_w (data2 e)) (size_h (data2 e))),
            (Renderer, SDL_CreateTexture (renderer s) (size_w (data2 e)) (size_h (data2 e)))]
      else [])"
  by (simp add: hf_defs size_differs_def)

lemma handle_frame_upload_last:
  "filter (\<lambda>x. is_resize (snd x))
     (dropWhile (\<lambda>x. \<not> is_upload (snd x)) (new_actions s (snd (handle_frame p e st s)))) = []"
  by (simp add: hf_defs)

lemma handle_frame_size:
  "current_width (snd (handle_frame p e st s)) =
     (if size_differs e s \<and> SDL_CreateTexture_r p \<noteq> NULL then size_w (data2 e) else current_width s)"
  "current_height (snd (handle_frame p e st s)) =
     (if size_differs e s \<and> SDL_CreateTexture_r p \<noteq> NULL then size_h (data2 e) else current_height s)"
  "frameTex (snd (handle_frame p e st s)) =
     (if size_differs e s then SDL_CreateTexture_r p else frameTex s)"
  by (simp_all add: hf_defs size_differs_def)

lemma handle_frame_outcome:
  "fst (handle_frame p e False s) \<longleftrightarrow>
     (size_differs e s \<and> SDL_CreateTexture_r p = NULL) \<or> SDL_UpdateTexture_rc p < 0"
  "display_fdbk (snd (handle_frame p e False s)) =
     (if (size_differs e s \<and> SDL_CreateTexture_r p = NULL) \<or> SDL_UpdateTexture_rc p < 0
      then FDBK_FAIL else FDBK_OK)"
  "filter (\<lambda>x. is_upload (snd x)) (new_actions s (snd (handle_frame p e False s))) =
     (if size_differs e s \<and> SDL_CreateTexture_r p = NULL then []
      else [(Renderer, SDL_UpdateTexture (frameTex (snd (handle_frame p e False s))) (data1 e)
               (current_width (snd (handle_frame p e False s))))])"
  by (simp_all add: hf_defs size_differs_def)

lemma handle_frame_feedback:
  "filter (\<lambda>x. is_feedback (snd x)) (new_actions s (snd (handle_frame p e False s))) =
     [(Renderer, Wr V_display_fdbk (VFdbk (display_fdbk (snd (handle_frame p e False s))))),
      (Renderer, CondSignal)]"
  by (simp add: hf_defs)

lemma new_actions_act [simp]: "new_actions s (act t a s) = [(t, a)]"
  by (simp add: new_actions_def)

lemma handle_event_trace:
  "trace (snd (handle_event p evt st s)) = trace s @ new_actions s (snd (handle_event p evt st s))"
  by (simp add: handle_event_def handle_frame_trace)

lemma handle_event_no_render:
  "filter (\<lambda>x. is_render (snd x)) (new_actions s (snd (handle_event p evt st s))) = []"
  by (simp add: handle_event_def handle_frame_no_render)

lemma handle_event_frame:
  "evt_type e = event_frame s \<Longrightarrow> handle_event p e st s = handle_frame p e st s"
  by (simp add: handle_event_def)

text \<open>The actions of one pass through the loop.\<close>

lemma pass_actions_event:
  assumes "thread s = InLoop cur" "SDL_WaitEvent_rc (at_pass E (passes s)) \<noteq> 0" "queue s = e # q"
  shows "new_actions s (renderer_step E s) =
     (let s1 = (act Renderer SDL_WaitEvent s)\<lparr>queue := q\<rparr>;
          h = handle_event (at_pass E (passes s)) e False s1
      in (Renderer, SDL_WaitEvent) # new_actions s1 (snd h) @
         [(Renderer, SDL_RenderClear (renderer s)),
          (Renderer, SDL_RenderCopy (renderer s) (frameTex (snd h))),
          (Renderer, SDL_RenderPresent (renderer s))] @
         (if fst h then cleanup (snd h) else []))"
  unfolding Let_def
  by (rule new_actionsI) (simp add: step_event [OF assms] handle_event_trace cleanup_def)

lemma pass_actions_error:
  assumes "thread s = InLoop cur" "SDL_WaitEvent_rc (at_pass E (passes s)) = 0"
  shows "new_actions s (renderer_step E s) =
     (let s1 = act Renderer SDL_WaitEvent s;
          h = handle_event (at_pass E (passes s)) cur True s1
      in (Renderer, SDL_WaitEvent) # new_actions s1 (snd h) @
         [(Renderer, SDL_RenderClear (renderer s)),
          (Renderer, SDL_RenderCopy (renderer s) (frameTex (snd h))),
          (Renderer, SDL_RenderPresent (renderer s))] @
         cleanup (snd h))"
  unfolding Let_def
  by (rule new_actionsI) (simp add: step_error [OF assms] handle_event_trace cleanup_def)

lemma frame_receivedD:
  "frame_received E e s \<Longrightarrow> \<exists>cur q. thread s = InLoop cur \<and> queue s = e # q \<and>
     SDL_WaitEvent_rc (at_pass E (passes s)) \<noteq> 0 \<and> evt_type e = event_frame s"
  by (cases "queue s") (auto simp: frame_received_def)

lemma filter_dropWhile_append:
  "filter Q (dropWhile P A) = [] \<Longrightarrow> filter Q B = [] \<Longrightarrow> filter Q (dropWhile P (A @ B)) = []"
  by (induction A) (auto simp: filter_empty_conv dest: set_dropWhileD)

lemma size_differs_waited [simp]:
  "size_differs e ((act t a s)\<lparr>queue := q\<rparr>) = size_differs e s"
  by (simp add: size_differs_def)

lemma dropWhile_skip:
  "filter Q H = [] \<Longrightarrow> dropWhile (\<lambda>x. \<not> Q x) (H @ rest) = dropWhile (\<lambda>x. \<not> Q x) rest"
  by (induction H) (auto split: if_splits)

text \<open>The starting phase and the end of the thread.\<close>

lemma init_result:
  "fst (video_display_init e w h s) =
     (if SDL_Init_rc e < 0 \<or> SDL_CreateWindow_r e = NULL \<or> SDL_CreateRenderer_r e = NULL \<or>
         SDL_RegisterEvents_r e = - 1 then - 1 else 0)"
  "trace (snd (video_display_init e w h s)) =
     trace s @ (Renderer, SDL_Init) #
       (if SDL_Init_rc e < 0 then []
        else (Renderer, SDL_CreateWindow w h) #
          (if SDL_CreateWindow_r e = NULL then []
           else (Renderer, SDL_CreateRenderer (SDL_CreateWindow_r e)) #
             (if SDL_CreateRenderer_r e = NULL then [] else [(Renderer, SDL_RegisterEvents)])))"
  by (simp_all add: video_display_init_def Let_def)

lemma init_handles:
  "fst (video_display_init e w h s) = 0 \<Longrightarrow>
   win (snd (video_display_init e w h s)) = SDL_CreateWindow_r e \<and>
   renderer (snd (video_display_init e w h s)) = SDL_CreateRenderer_r e \<and>
   event_frame (snd (video_display_init e w h s)) = SDL_RegisterEvents_r e \<and>
   event_quit (snd (video_display_init e w h s)) = SDL_RegisterEvents_r e + 1"
  by (simp add: video_display_init_def Let_def split: if_splits)

lemmas st_defs = thread_starting_def Let_def split_beta new_actions_def set_size_result init_result

lemma starting_trace:
  "trace (snd (thread_starting e s)) = trace s @ new_actions s (snd (thread_starting e s))"
  by (simp add: st_defs)

lemma starting_acquires:
  "\<not> start_fails e \<Longrightarrow>
   List.map_filter (\<lambda>x. acquired (snd x)) (new_actions s (snd (thread_starting e s))) =
     [Subsystem, Window, Context, Texture]"
  by (simp add: start_fails_def st_defs List.map_filter_simps)

lemma starting_stopped: "fst (thread_starting e s) \<longleftrightarrow> start_fails e"
  by (simp add: start_fails_def st_defs)

lemma leaving_suffix:
  assumes "thread s \<noteq> NoThread" and "thread (renderer_step E s) = NoThread"
  shows "\<exists>A. new_actions s (renderer_step E s) = A @ cleanup (renderer_step E s)"
proof (cases "thread s")
  case NoThread
  with assms show ?thesis by simp
next
  case Starting
  from assms(2) have st: "fst (thread_starting (at_start E) s)"
    by (simp add: step_starting [OF Starting] split: if_splits)
  have "new_actions s (renderer_step E s) =
      new_actions s (snd (thread_starting (at_start E) s)) @ cleanup (renderer_step E s)"
    by (rule new_actionsI) (simp add: step_starting [OF Starting] st starting_trace cleanup_def)
  then show ?thesis by blast
next
  case (InLoop cur)
  show ?thesis
  proof (cases "SDL_WaitEvent_rc (at_pass E (passes s)) = 0")
    case True
    show ?thesis
      using pass_actions_error [OF InLoop True]
      by (simp add: Let_def step_error [OF InLoop True] cleanup_def)
  next
    case False
    have "can_run E s"
      using assms InLoop by (cases "can_run E s") (simp_all add: step_idle)
    with InLoop False obtain e q where q: "queue s = e # q"
      by (cases "queue s") (auto simp: can_run_def)
    from assms(2) have st: "fst (handle_event (at_pass E (passes s)) e False
               ((act Renderer SDL_WaitEvent s)\<lparr>queue := q\<rparr>))"
      by (simp add: step_event [OF InLoop False q] split: if_splits)
    show ?thesis
      using pass_actions_event [OF InLoop False q]
      by (simp add: Let_def step_event [OF InLoop False q] cleanup_def st)
  qed
qed

lemma leaving_uninitialized:
  assumes "thread s \<noteq> NoThread" and "thread (renderer_step E s) = NoThread"
  shows "\<not> initialized (renderer_step E s)"
proof (cases "thread s")
  case NoThread
  with assms show ?thesis by simp
next
  case Starting
  with assms(2) show ?thesis
    by (simp add: step_starting [OF Starting] split: if_splits)
next
  case (InLoop cur)
  show ?thesis
  proof (cases "SDL_WaitEvent_rc (at_pass E (passes s)) = 0")
    case True
    show ?thesis by (simp add: step_error [OF InLoop True])
  next
    case False
    have "can_run E s"
      using assms InLoop by (cases "can_run E s") (simp_all add: step_idle)
    with InLoop False obtain e q where q: "queue s = e # q"
      by (cases "queue s") (auto simp: can_run_def)
    from assms(2) show ?thesis
      by (simp add: step_event [OF InLoop False q] split: if_splits)
  qed
qed

lemma no_thread_idle:
  "thread s = NoThread \<Longrightarrow> \<not> can_run E s \<and> renderer_step E s = s \<and> renderer_run E s = s"
  by (simp add: can_run_def renderer_step_def renderer_run.simps [of E s])

lemma quit_leaves:
  assumes "thread s = InLoop cur" "SDL_WaitEvent_rc (at_pass E (passes s)) \<noteq> 0" "queue s = e # q"
    and "evt_type e \<noteq> event_frame s" and "evt_type e = event_quit s \<or> evt_type e = SDL_QUIT"
  shows "thread (renderer_step E s) = NoThread"
  using assms(4,5) by (auto simp add: step_event [OF assms(1,2,3)] handle_event_def)

lemma drop_suffix: "length C = n \<Longrightarrow> drop (length (A @ C) - n) (A @ C) = C"
  by simp

section \<open>Facts about traces and about the waiting loop\<close>

lemma held_after_append: "held_after h (a @ b) = held_after (held_after h a) b"
  by (induction h a rule: held_after.induct) simp_all

lemma guarded_append: "guarded X h (a @ b) \<longleftrightarrow> guarded X h a \<and> guarded X (held_after h a) b"
  by (induction X h a rule: guarded.induct) simp_all

lemma actions_of_simps [simp]:
  "actions_of t [] = []"
  "actions_of t ((u, a) # tr) = (if u = t then a # actions_of t tr else actions_of t tr)"
  "actions_of t (tr @ tr') = actions_of t tr @ actions_of t tr'"
  by (simp_all add: actions_of_def)

definition extends :: "world \<Rightarrow> world \<Rightarrow> bool" where
  "extends s s' \<longleftrightarrow> take (length (trace s)) (trace s') = trace s"

lemma extends_trace: "extends s s' \<Longrightarrow> trace s' = trace s @ new_actions s s'"
  unfolding extends_def new_actions_def by (metis append_take_drop_id)

lemma extendsI: "trace s' = trace s @ d \<Longrightarrow> extends s s'"
  by (simp add: extends_def)

lemma extends_refl [simp]: "extends s s"
  by (simp add: extends_def)

lemma new_actions_trans:
  assumes "extends a b" "extends b c"
  shows "extends a c" "new_actions a c = new_actions a b @ new_actions b c"
proof -
  have t: "trace c = trace a @ new_actions a b @ new_actions b c"
    using extends_trace [OF assms(1)] extends_trace [OF assms(2)] by simp
  then show "extends a c" by (rule extendsI)
  from t show "new_actions a c = new_actions a b @ new_actions b c" by (rule new_actionsI)
qed

text \<open>
  A piece of trace made by the display thread alone, outside its critical sections at both
  ends, with every access to a shared variable placed as \<open>exempt\<close> says.
\<close>

definition renderer_segment :: "(thread_id \<times> action) list \<Rightarrow> bool" where
  "renderer_segment d \<longleftrightarrow>
     (\<forall>x\<in>set d. fst x = Renderer \<and> \<not> is_push (snd x)) \<and>
     guarded (exempt Renderer) False (map snd d) \<and> \<not> held_after False (map snd d)"

lemma renderer_segment_append:
  "renderer_segment a \<Longrightarrow> renderer_segment b \<Longrightarrow> renderer_segment (a @ b)"
  by (auto simp: renderer_segment_def guarded_append held_after_append)

lemma renderer_segment_Nil [simp]: "renderer_segment []"
  by (simp add: renderer_segment_def)

fun plain :: "action \<Rightarrow> bool" where
  "plain Lock = False"
| "plain Unlock = False"
| "plain (Rd v) = False"
| "plain (Wr v x) = False"
| "plain (SDL_PushEvent e) = False"
| "plain a = True"

lemma renderer_segment_Cons:
  "plain a \<Longrightarrow> renderer_segment ((Renderer, a) # d) = renderer_segment d"
  by (cases a) (auto simp: renderer_segment_def)

lemma handle_frame_segment:
  "renderer_segment (new_actions s (snd (handle_frame p e st s)))"
  by (simp add: renderer_segment_def hf_defs)

lemma handle_event_segment:
  "renderer_segment (new_actions s (snd (handle_event p e st s)))"
  by (simp add: handle_event_def handle_frame_segment) (simp add: renderer_segment_def)

lemma starting_segment:
  "renderer_segment (new_actions s (snd (thread_starting e s)))"
  by (simp add: renderer_segment_def st_defs)

lemma cleanup_segment: "renderer_segment (cleanup s)"
  by (simp add: renderer_segment_def cleanup_def)

lemma step_extends: "extends s (renderer_step E s)"
proof (cases "can_run E s")
  case False
  then show ?thesis by (simp add: step_idle)
next
  case True
  show ?thesis
  proof (cases "thread s")
    case NoThread
    with True show ?thesis by (simp add: can_run_def)
  next
    case Starting
    show ?thesis
      by (rule extendsI) (simp add: step_starting [OF Starting] starting_trace)
  next
    case (InLoop cur)
    show ?thesis
    proof (cases "SDL_WaitEvent_rc (at_pass E (passes s)) = 0")
      case z: True
      show ?thesis
        by (rule extendsI) (simp add: step_error [OF InLoop z] handle_event_trace)
    next
      case nz: False
      with True InLoop obtain e q where q: "queue s = e # q"
        by (cases "queue s") (auto simp: can_run_def)
      show ?thesis
        by (rule extendsI) (simp add: step_event [OF InLoop nz q] handle_event_trace)
    qed
  qed
qed

lemma step_segment: "renderer_segment (new_actions s (renderer_step E s))"
proof (cases "can_run E s")
  case False
  then show ?thesis by (simp add: step_idle)
next
  case True
  show ?thesis
  proof (cases "thread s")
    case NoThread
    with True show ?thesis by (simp add: can_run_def)
  next
    case Starting
    have "new_actions s (renderer_step E s) =
        new_actions s (snd (thread_starting (at_start E) s)) @
        (if fst (thread_starting (at_start E) s) then cleanup (snd (thread_starting (at_start E) s))
         else [])"
      by (rule new_actionsI) (simp add: step_starting [OF Starting] starting_trace)
    then show ?thesis
      by (simp add: renderer_segment_append starting_segment cleanup_segment)
  next
    case (InLoop cur)
    show ?thesis
    proof (cases "SDL_WaitEvent_rc (at_pass E (passes s)) = 0")
      case z: True
      show ?thesis
        using pass_actions_error [OF InLoop z]
        by (simp add: Let_def renderer_segment_Cons renderer_segment_append
            handle_event_segment cleanup_segment)
    next
      case nz: False
      with True InLoop obtain e q where q: "queue s = e # q"
        by (cases "queue s") (auto simp: can_run_def)
      show ?thesis
        using pass_actions_event [OF InLoop nz q]
        by (simp add: Let_def renderer_segment_Cons renderer_segment_append
            handle_event_segment cleanup_segment)
    qed
  qed
qed

lemma can_run_act [simp]: "can_run E (act t a s) = can_run E s"
  by (simp add: can_run_def split: thread_state.split)

lemma extends_act [simp]: "extends s (act t a s)"
  by (simp add: extends_def)

lemma extends_act2 [simp]: "extends s (act t a (act u b s))"
  by (simp add: extends_def)

lemma new_actions_act2 [simp]: "new_actions s (act t a (act u b s)) = [(u, b), (t, a)]"
  by (simp add: new_actions_def)

text \<open>Steps of the display thread, in any number, make a piece of trace of that thread.\<close>

definition renders :: "world \<Rightarrow> world \<Rightarrow> bool" where
  "renders s s' \<longleftrightarrow> extends s s' \<and> renderer_segment (new_actions s s')"

lemma renders_refl [simp]: "renders s s"
  by (simp add: renders_def)

lemma renders_trans: "renders a b \<Longrightarrow> renders b c \<Longrightarrow> renders a c"
  unfolding renders_def
  by (metis new_actions_trans renderer_segment_append)

lemma renders_step: "renders s (renderer_step E s)"
  by (simp add: renders_def step_extends step_segment)

lemma renders_steps: "renders s (renderer_steps n E s)"
proof (induction n arbitrary: s)
  case 0
  show ?case by simp
next
  case (Suc n)
  have "renders s (renderer_step E s)" by (rule renders_step)
  moreover have "renders (renderer_step E s) (renderer_steps n E (renderer_step E s))"
    by (rule Suc.IH)
  ultimately show ?case by (simp add: renders_trans)
qed

lemma renders_preempt: "renders s (preempt E s)"
  by (simp add: preempt_def renders_steps)

lemma until_signal_idle: "\<not> can_run E s \<Longrightarrow> until_signal E s = (False, s)"
  by (simp add: until_signal.simps [of E s])

lemma until_signal_now:
  "can_run E s \<Longrightarrow> (Renderer, CondSignal) \<in> set (new_actions s (renderer_step E s)) \<Longrightarrow>
   until_signal E s = (True, renderer_step E s)"
  by (simp add: until_signal.simps [of E s])

lemma until_signal_later:
  "can_run E s \<Longrightarrow> (Renderer, CondSignal) \<notin> set (new_actions s (renderer_step E s)) \<Longrightarrow>
   until_signal E s = until_signal E (renderer_step E s)"
  by (simp add: until_signal.simps [of E s])

lemma renders_until_signal: "renders s (snd (until_signal E s))"
proof (induction E s rule: until_signal.induct)
  case (1 E s)
  show ?case
  proof (cases "can_run E s")
    case False
    then show ?thesis by (simp add: until_signal_idle)
  next
    case True
    show ?thesis
    proof (cases "(Renderer, CondSignal) \<in> set (new_actions s (renderer_step E s))")
      case s: True
      with True show ?thesis by (simp add: until_signal_now renders_step)
    next
      case n: False
      have "renders (renderer_step E s) (snd (until_signal E (renderer_step E s)))"
        using True n by (intro "1.IH") simp_all
      with renders_step [of s E] have "renders s (snd (until_signal E (renderer_step E s)))"
        by (rule renders_trans)
      with True n show ?thesis by (simp add: until_signal_later)
    qed
  qed
qed

text \<open>
  The display thread writes the feedback variable only in a step that also signals: the
  starting phase and the frame branch.
\<close>

lemma starting_signals:
  "(Renderer, CondSignal) \<in> set (new_actions s (snd (thread_starting e s)))"
  by (simp add: st_defs)

lemma handle_frame_signals:
  "(Renderer, CondSignal) \<in> set (new_actions s (snd (handle_frame p e st s)))"
  by (simp add: hf_defs)

lemma handle_event_silent:
  assumes "(Renderer, CondSignal) \<notin> set (new_actions s (snd (handle_event p e st s)))"
  shows "display_fdbk (snd (handle_event p e st s)) = display_fdbk s"
proof (cases "evt_type e = event_frame s")
  case True
  with assms handle_frame_signals [of s p e st] show ?thesis
    by (simp add: handle_event_frame)
next
  case False
  then show ?thesis by (simp add: handle_event_def)
qed

lemma step_silent:
  assumes "(Renderer, CondSignal) \<notin> set (new_actions s (renderer_step E s))"
  shows "display_fdbk (renderer_step E s) = display_fdbk s"
proof (cases "can_run E s")
  case False
  then show ?thesis by (simp add: step_idle)
next
  case True
  show ?thesis
  proof (cases "thread s")
    case NoThread
    with True show ?thesis by (simp add: can_run_def)
  next
    case Starting
    have "new_actions s (renderer_step E s) =
        new_actions s (snd (thread_starting (at_start E) s)) @
        (if fst (thread_starting (at_start E) s) then cleanup (snd (thread_starting (at_start E) s))
         else [])"
      by (rule new_actionsI) (simp add: step_starting [OF Starting] starting_trace)
    with assms starting_signals [of s "at_start E"] show ?thesis by simp
  next
    case (InLoop cur)
    show ?thesis
    proof (cases "SDL_WaitEvent_rc (at_pass E (passes s)) = 0")
      case z: True
      from assms have "(Renderer, CondSignal) \<notin> set (new_actions (act Renderer SDL_WaitEvent s)
          (snd (handle_event (at_pass E (passes s)) cur True (act Renderer SDL_WaitEvent s))))"
        unfolding pass_actions_error [OF InLoop z] by (simp add: Let_def)
      from handle_event_silent [OF this] show ?thesis
        by (simp add: step_error [OF InLoop z])
    next
      case nz: False
      with True InLoop obtain e q where q: "queue s = e # q"
        by (cases "queue s") (auto simp: can_run_def)
      from assms have "(Renderer, CondSignal) \<notin>
          set (new_actions ((act Renderer SDL_WaitEvent s)\<lparr>queue := q\<rparr>)
          (snd (handle_event (at_pass E (passes s)) e False
                  ((act Renderer SDL_WaitEvent s)\<lparr>queue := q\<rparr>))))"
        unfolding pass_actions_event [OF InLoop nz q] by (simp add: Let_def)
      from handle_event_silent [OF this] show ?thesis
        by (simp add: step_event [OF InLoop nz q])
    qed
  qed
qed

lemma until_signal_silent:
  "\<not> fst (until_signal E s) \<Longrightarrow>
   display_fdbk (snd (until_signal E s)) = display_fdbk s \<and> \<not> can_run E (snd (until_signal E s))"
proof (induction E s rule: until_signal.induct)
  case (1 E s)
  show ?case
  proof (cases "can_run E s")
    case False
    then show ?thesis by (simp add: until_signal_idle)
  next
    case True
    show ?thesis
    proof (cases "(Renderer, CondSignal) \<in> set (new_actions s (renderer_step E s))")
      case s: True
      with True "1.prems" show ?thesis by (simp add: until_signal_now)
    next
      case n: False
      from True n "1.prems" have f: "\<not> fst (until_signal E (renderer_step E s))"
        by (simp add: until_signal_later)
      have "display_fdbk (snd (until_signal E (renderer_step E s))) =
          display_fdbk (renderer_step E s) \<and>
          \<not> can_run E (snd (until_signal E (renderer_step E s)))"
        using True n f by (intro "1.IH") simp_all
      with True n step_silent [OF n] show ?thesis by (simp add: until_signal_later)
    qed
  qed
qed

text \<open>The waiting loop, case by case.\<close>

lemma wait_loop_done:
  "display_fdbk s \<noteq> FDBK_NONE \<Longrightarrow> wait_loop E s = (True, act Producer (Rd V_display_fdbk) s)"
  by (simp add: wait_loop.simps [of E s])

lemma wait_loop_blocked:
  "display_fdbk s = FDBK_NONE \<Longrightarrow>
   \<not> fst (until_signal E (act Producer CondWait (act Producer (Rd V_display_fdbk) s))) \<Longrightarrow>
   wait_loop E s =
     (False, snd (until_signal E (act Producer CondWait (act Producer (Rd V_display_fdbk) s))))"
  by (simp add: wait_loop.simps [of E s] Let_def)

lemma wait_loop_step:
  "display_fdbk s = FDBK_NONE \<Longrightarrow>
   fst (until_signal E (act Producer CondWait (act Producer (Rd V_display_fdbk) s))) \<Longrightarrow>
   wait_loop E s =
     wait_loop E (preempt E
       (snd (until_signal E (act Producer CondWait (act Producer (Rd V_display_fdbk) s)))))"
  by (simp add: wait_loop.simps [of E s] Let_def)

lemma wait_loop_rule:
  assumes d: "\<And>s. display_fdbk s \<noteq> FDBK_NONE \<Longrightarrow> R s (True, act Producer (Rd V_display_fdbk) s)"
    and b: "\<And>s. display_fdbk s = FDBK_NONE \<Longrightarrow>
        \<not> fst (until_signal E (act Producer CondWait (act Producer (Rd V_display_fdbk) s))) \<Longrightarrow>
        R s (False, snd (until_signal E (act Producer CondWait (act Producer (Rd V_display_fdbk) s))))"
    and st: "\<And>s. display_fdbk s = FDBK_NONE \<Longrightarrow>
        fst (until_signal E (act Producer CondWait (act Producer (Rd V_display_fdbk) s))) \<Longrightarrow>
        R (preempt E (snd (until_signal E (act Producer CondWait (act Producer (Rd V_display_fdbk) s)))))
          (wait_loop E (preempt E
             (snd (until_signal E (act Producer CondWait (act Producer (Rd V_display_fdbk) s))))))
        \<Longrightarrow> R s (wait_loop E (preempt E
               (snd (until_signal E (act Producer CondWait (act Producer (Rd V_display_fdbk) s))))))"
  shows "R s (wait_loop E s)"
  using assms
proof (induction E s rule: wait_loop.induct)
  case (1 E s)
  note d = "1.prems"(1) and b = "1.prems"(2) and st = "1.prems"(3)
  let ?u = "until_signal E (act Producer CondWait (act Producer (Rd V_display_fdbk) s))"
  show ?case
  proof (cases "display_fdbk s = FDBK_NONE")
    case False
    with d [OF False] show ?thesis by (simp add: wait_loop_done)
  next
    case True
    show ?thesis
    proof (cases "fst ?u")
      case False
      with b [OF True False] True show ?thesis by (simp add: wait_loop_blocked)
    next
      case c: True
      have "R (preempt E (snd ?u)) (wait_loop E (preempt E (snd ?u)))"
        using True c "1.prems" by (intro "1.IH") simp_all
      from st [OF True c this] show ?thesis
        using True c by (simp add: wait_loop_step)
    qed
  qed
qed

text \<open>
  A piece of trace made while the caller waits: the caller only reads the feedback variable
  and sleeps; the display thread is as in \<open>renderer_segment\<close>.
\<close>

definition waiting_segment :: "(thread_id \<times> action) list \<Rightarrow> bool" where
  "waiting_segment d \<longleftrightarrow>
     (\<forall>a\<in>set (actions_of Producer d). a = Rd V_display_fdbk \<or> a = CondWait) \<and>
     guarded (exempt Renderer) False (actions_of Renderer d) \<and>
     \<not> held_after False (actions_of Renderer d) \<and>
     (\<forall>x\<in>set d. \<not> is_push (snd x))"

lemma actions_of_own: "\<forall>x\<in>set d. fst x = t \<Longrightarrow> actions_of t d = map snd d"
  by (induction d) (auto simp: actions_of_def)

lemma actions_of_other: "\<forall>x\<in>set d. fst x = t \<Longrightarrow> u \<noteq> t \<Longrightarrow> actions_of u d = []"
  by (induction d) (auto simp: actions_of_def)

lemma renderer_waiting: "renderer_segment d \<Longrightarrow> waiting_segment d"
  by (auto simp: renderer_segment_def waiting_segment_def actions_of_own
      actions_of_other [where t = Renderer and u = Producer])

lemma waiting_segment_append:
  "waiting_segment a \<Longrightarrow> waiting_segment b \<Longrightarrow> waiting_segment (a @ b)"
  by (auto simp: waiting_segment_def guarded_append held_after_append)

definition waits :: "world \<Rightarrow> world \<Rightarrow> bool" where
  "waits s s' \<longleftrightarrow> extends s s' \<and> waiting_segment (new_actions s s')"

lemma waits_trans: "waits a b \<Longrightarrow> waits b c \<Longrightarrow> waits a c"
  unfolding waits_def
  by (metis new_actions_trans waiting_segment_append)

lemma renders_waits: "renders s s' \<Longrightarrow> waits s s'"
  by (simp add: renders_def waits_def renderer_waiting)

lemma waits_basic:
  "waits s (act Producer (Rd V_display_fdbk) s)"
  "waits s (act Producer CondWait (act Producer (Rd V_display_fdbk) s))"
  by (simp_all add: waits_def waiting_segment_def)

lemma wait_loop_waits: "waits s (snd (wait_loop E s))"
proof (rule wait_loop_rule [where R = "\<lambda>s r. waits s (snd r)"])
  fix s :: world
  show "waits s (snd (True, act Producer (Rd V_display_fdbk) s))"
    by (simp add: waits_basic)
next
  fix s :: world
  let ?w = "act Producer CondWait (act Producer (Rd V_display_fdbk) s)"
  have "waits ?w (snd (until_signal E ?w))"
    by (rule renders_waits) (rule renders_until_signal)
  with waits_basic(2) [of s] have "waits s (snd (until_signal E ?w))"
    by (rule waits_trans)
  then show "waits s (snd (False, snd (until_signal E ?w)))" by simp
next
  fix s :: world
  let ?w = "act Producer CondWait (act Producer (Rd V_display_fdbk) s)"
  let ?p = "preempt E (snd (until_signal E ?w))"
  assume ih: "waits ?p (snd (wait_loop E ?p))"
  have "waits ?w (snd (until_signal E ?w))"
    by (rule renders_waits) (rule renders_until_signal)
  with waits_basic(2) [of s] have "waits s (snd (until_signal E ?w))"
    by (rule waits_trans)
  moreover have "waits (snd (until_signal E ?w)) ?p"
    by (rule renders_waits) (rule renders_preempt)
  ultimately have "waits s ?p" by (rule waits_trans)
  then show "waits s (snd (wait_loop E ?p))" using ih by (rule waits_trans)
qed

lemma wait_loop_extends:
  "extends s (snd (wait_loop E s)) \<and> waiting_segment (new_actions s (snd (wait_loop E s)))"
  using wait_loop_waits [of s E] by (simp add: waits_def)

lemma wait_loop_woke:
  "(fst (wait_loop E s) \<longleftrightarrow> display_fdbk (snd (wait_loop E s)) \<noteq> FDBK_NONE) \<and>
   (\<not> fst (wait_loop E s) \<longrightarrow> \<not> can_run E (snd (wait_loop E s)))"
proof (rule wait_loop_rule [where R = "\<lambda>s r. (fst r \<longleftrightarrow> display_fdbk (snd r) \<noteq> FDBK_NONE) \<and>
        (\<not> fst r \<longrightarrow> \<not> can_run E (snd r))"])
  fix s :: world
  assume "display_fdbk s \<noteq> FDBK_NONE"
  then show "(fst (True, act Producer (Rd V_display_fdbk) s) \<longleftrightarrow>
       display_fdbk (snd (True, act Producer (Rd V_display_fdbk) s)) \<noteq> FDBK_NONE) \<and>
      (\<not> fst (True, act Producer (Rd V_display_fdbk) s) \<longrightarrow>
       \<not> can_run E (snd (True, act Producer (Rd V_display_fdbk) s)))"
    by simp
next
  fix s :: world
  let ?w = "act Producer CondWait (act Producer (Rd V_display_fdbk) s)"
  assume "display_fdbk s = FDBK_NONE" and "\<not> fst (until_signal E ?w)"
  with until_signal_silent [of E ?w]
  show "(fst (False, snd (until_signal E ?w)) \<longleftrightarrow>
       display_fdbk (snd (False, snd (until_signal E ?w))) \<noteq> FDBK_NONE) \<and>
      (\<not> fst (False, snd (until_signal E ?w)) \<longrightarrow>
       \<not> can_run E (snd (False, snd (until_signal E ?w))))"
    by simp
next
  fix s :: world
  let ?p = "preempt E (snd (until_signal E
      (act Producer CondWait (act Producer (Rd V_display_fdbk) s))))"
  assume "(fst (wait_loop E ?p) \<longleftrightarrow> display_fdbk (snd (wait_loop E ?p)) \<noteq> FDBK_NONE) \<and>
      (\<not> fst (wait_loop E ?p) \<longrightarrow> \<not> can_run E (snd (wait_loop E ?p)))"
  then show "(fst (wait_loop E ?p) \<longleftrightarrow> display_fdbk (snd (wait_loop E ?p)) \<noteq> FDBK_NONE) \<and>
      (\<not> fst (wait_loop E ?p) \<longrightarrow> \<not> can_run E (snd (wait_loop E ?p)))" .
qed

section \<open>Facts about the calling thread\<close>

text \<open>
  What the caller has done between two states, and what a piece of trace made during a call
  looks like: every event pushed is pushed by the caller, and the display thread places its
  accesses as \<open>exempt\<close> says and is outside its critical sections at the end.
\<close>

definition mine :: "world \<Rightarrow> world \<Rightarrow> action list" where
  "mine s s' = actions_of Producer (new_actions s s')"

definition traced :: "world \<Rightarrow> world \<Rightarrow> bool" where
  "traced s s' \<longleftrightarrow>
     extends s s' \<and>
     filter (\<lambda>x. is_push (snd x)) (new_actions s s') =
       map (Pair Producer) (filter is_push (mine s s')) \<and>
     guarded (exempt Renderer) False (actions_of Renderer (new_actions s s')) \<and>
     \<not> held_after False (actions_of Renderer (new_actions s s'))"

definition waiting :: "action list \<Rightarrow> bool" where
  "waiting l \<longleftrightarrow> (\<forall>a\<in>set l. a = Rd V_display_fdbk \<or> a = CondWait)"

lemma traced_refl [simp]: "traced s s"
  by (simp add: traced_def mine_def)

lemma mine_refl [simp]: "mine s s = []"
  by (simp add: mine_def)

lemma traced_trans:
  assumes "traced a b" and "traced b c"
  shows "traced a c" and "mine a c = mine a b @ mine b c"
proof -
  from assms have e: "extends a b" "extends b c" by (simp_all add: traced_def)
  note n = new_actions_trans [OF e]
  show "mine a c = mine a b @ mine b c" by (simp add: mine_def n(2))
  with assms n show "traced a c"
    by (simp add: traced_def mine_def guarded_append held_after_append)
qed

lemma traced_renders:
  assumes "renders s s'"
  shows "traced s s'" and "mine s s' = []"
proof -
  from assms have e: "extends s s'" and r: "renderer_segment (new_actions s s')"
    by (simp_all add: renders_def)
  from r have a: "\<forall>x\<in>set (new_actions s s'). fst x = Renderer"
    by (simp add: renderer_segment_def)
  from a show m: "mine s s' = []"
    unfolding mine_def by (rule actions_of_other) simp
  from r have "filter (\<lambda>x. is_push (snd x)) (new_actions s s') = []"
    by (simp add: renderer_segment_def filter_empty_conv)
  with e r m show "traced s s'"
    by (simp add: traced_def renderer_segment_def actions_of_own [OF a])
qed

lemma traced_waits:
  assumes "waits s s'"
  shows "traced s s'" and "waiting (mine s s')"
proof -
  from assms have e: "extends s s'" and w: "waiting_segment (new_actions s s')"
    by (simp_all add: waits_def)
  from w show m: "waiting (mine s s')"
    by (simp add: waiting_segment_def waiting_def mine_def)
  then have "filter is_push (mine s s') = []"
    by (auto simp: waiting_def filter_empty_conv)
  moreover from w have "filter (\<lambda>x. is_push (snd x)) (new_actions s s') = []"
    by (simp add: waiting_segment_def filter_empty_conv)
  ultimately show "traced s s'"
    using e w by (simp add: traced_def waiting_segment_def)
qed

lemma traced_own:
  assumes "trace s' = trace s @ [(Producer, a)]"
  shows "traced s s'" and "mine s s' = [a]"
proof -
  from assms have n: "new_actions s s' = [(Producer, a)]" by (rule new_actionsI)
  from assms have e: "extends s s'" by (rule extendsI)
  show "mine s s' = [a]" by (simp add: mine_def n)
  with e n show "traced s s'" by (simp add: traced_def)
qed

lemma traced_same:
  assumes "trace s' = trace s"
  shows "traced s s'" and "mine s s' = []"
proof -
  from assms have n: "new_actions s s' = []" by (simp add: new_actions_def)
  from assms have e: "extends s s'" by (simp add: extends_def)
  show "mine s s' = []" by (simp add: mine_def n)
  with e n show "traced s s'" by (simp add: traced_def)
qed

text \<open>The caller's actions one after the other, with the display thread in between.\<close>

lemma then_act [simp]:
  assumes "traced s s1"
  shows "traced s (act Producer a s1)" and "mine s (act Producer a s1) = mine s s1 @ [a]"
proof -
  have t: "trace (act Producer a s1) = trace s1 @ [(Producer, a)]" by simp
  from traced_trans [OF assms traced_own(1) [OF t]] traced_own(2) [OF t]
  show "traced s (act Producer a s1)" and "mine s (act Producer a s1) = mine s s1 @ [a]"
    by simp_all
qed

lemma then_set_display_fdbk [simp]:
  assumes "traced s s1"
  shows "traced s (set_display_fdbk Producer m s1)"
    and "mine s (set_display_fdbk Producer m s1) = mine s s1 @ [Wr V_display_fdbk (VFdbk m)]"
proof -
  have t: "trace (set_display_fdbk Producer m s1) =
      trace s1 @ [(Producer, Wr V_display_fdbk (VFdbk m))]" by simp
  from traced_trans [OF assms traced_own(1) [OF t]] traced_own(2) [OF t]
  show "traced s (set_display_fdbk Producer m s1)"
    and "mine s (set_display_fdbk Producer m s1) = mine s s1 @ [Wr V_display_fdbk (VFdbk m)]"
    by simp_all
qed

lemma then_set_current_width [simp]:
  assumes "traced s s1"
  shows "traced s (set_current_width Producer v s1)"
    and "mine s (set_current_width Producer v s1) = mine s s1 @ [Wr V_current_width (VInt v)]"
proof -
  have t: "trace (set_current_width Producer v s1) =
      trace s1 @ [(Producer, Wr V_current_width (VInt v))]" by simp
  from traced_trans [OF assms traced_own(1) [OF t]] traced_own(2) [OF t]
  show "traced s (set_current_width Producer v s1)"
    and "mine s (set_current_width Producer v s1) = mine s s1 @ [Wr V_current_width (VInt v)]"
    by simp_all
qed

lemma then_set_current_height [simp]:
  assumes "traced s s1"
  shows "traced s (set_current_height Producer v s1)"
    and "mine s (set_current_height Producer v s1) = mine s s1 @ [Wr V_current_height (VInt v)]"
proof -
  have t: "trace (set_current_height Producer v s1) =
      trace s1 @ [(Producer, Wr V_current_height (VInt v))]" by simp
  from traced_trans [OF assms traced_own(1) [OF t]] traced_own(2) [OF t]
  show "traced s (set_current_height Producer v s1)"
    and "mine s (set_current_height Producer v s1) = mine s s1 @ [Wr V_current_height (VInt v)]"
    by simp_all
qed

lemma then_push_event [simp]:
  assumes "traced s s1"
  shows "traced s (push_event Producer e s1)"
    and "mine s (push_event Producer e s1) = mine s s1 @ [SDL_PushEvent e]"
proof -
  have t: "trace (push_event Producer e s1) = trace s1 @ [(Producer, SDL_PushEvent e)]" by simp
  from traced_trans [OF assms traced_own(1) [OF t]] traced_own(2) [OF t]
  show "traced s (push_event Producer e s1)"
    and "mine s (push_event Producer e s1) = mine s s1 @ [SDL_PushEvent e]"
    by simp_all
qed

lemma then_spawn [simp]:
  assumes "traced s s1"
  shows "traced s (s1\<lparr>thread := x\<rparr>)" and "mine s (s1\<lparr>thread := x\<rparr>) = mine s s1"
proof -
  have t: "trace (s1\<lparr>thread := x\<rparr>) = trace s1" by simp
  from traced_trans [OF assms traced_same(1) [OF t]] traced_same(2) [OF t]
  show "traced s (s1\<lparr>thread := x\<rparr>)" and "mine s (s1\<lparr>thread := x\<rparr>) = mine s s1"
    by simp_all
qed

lemma then_preempt [simp]:
  assumes "traced s s1"
  shows "traced s (preempt E s1)" and "mine s (preempt E s1) = mine s s1"
proof -
  note r = traced_renders [OF renders_preempt [of s1 E]]
  from traced_trans [OF assms r(1)] r(2)
  show "traced s (preempt E s1)" and "mine s (preempt E s1) = mine s s1"
    by simp_all
qed

text \<open>Lock, wait, read the result, unlock.\<close>

definition slept :: "env \<Rightarrow> world \<Rightarrow> action list" where
  "slept E s =
     mine (act Producer Lock (preempt E s)) (snd (wait_loop E (act Producer Lock (preempt E s))))"

lemma waiting_slept: "waiting (slept E s)"
  unfolding slept_def by (rule traced_waits) (rule wait_loop_waits)

lemma wait_feedback_result:
  "wait_feedback E s =
     (if fst (wait_loop E (act Producer Lock (preempt E s)))
      then (Returned (if display_fdbk (snd (wait_loop E (act Producer Lock (preempt E s)))) = FDBK_OK
                      then 0 else - 1),
            act Producer Unlock (act Producer (Rd V_display_fdbk)
              (snd (wait_loop E (act Producer Lock (preempt E s))))))
      else (Blocked, snd (wait_loop E (act Producer Lock (preempt E s)))))"
  by (simp add: wait_feedback_def split_beta Let_def)

lemma wait_feedback_outcome:
  "fst (wait_feedback E s) =
     (case display_fdbk (snd (wait_feedback E s)) of
        FDBK_NONE \<Rightarrow> Blocked | FDBK_OK \<Rightarrow> Returned 0 | FDBK_FAIL \<Rightarrow> Returned (- 1))"
  "fst (wait_feedback E s) = Blocked \<longrightarrow> \<not> can_run E (snd (wait_feedback E s))"
  using wait_loop_woke [of E "act Producer Lock (preempt E s)"]
  by (auto simp add: wait_feedback_result split: feedback_msg.split)

lemma then_wait_feedback [simp]:
  assumes "traced s s1"
  shows "traced s (snd (wait_feedback E s1))"
    and "mine s (snd (wait_feedback E s1)) =
      mine s s1 @ Lock # slept E s1 @
      (if fst (wait_feedback E s1) = Blocked then [] else [Rd V_display_fdbk, Unlock])"
proof -
  let ?l = "act Producer Lock (preempt E s1)"
  let ?r = "wait_loop E ?l"
  have a: "traced s ?l" "mine s ?l = mine s s1 @ [Lock]"
    using assms by simp_all
  note w = traced_waits(1) [OF wait_loop_waits [of ?l E]]
  note b = traced_trans [OF a(1) w]
  show "traced s (snd (wait_feedback E s1))"
    using b(1) by (simp add: wait_feedback_result)
  show "mine s (snd (wait_feedback E s1)) =
      mine s s1 @ Lock # slept E s1 @
      (if fst (wait_feedback E s1) = Blocked then [] else [Rd V_display_fdbk, Unlock])"
    using b by (simp add: wait_feedback_result a(2) slept_def)
qed

text \<open>What the caller does while it waits is done with the mutex held.\<close>

lemma waiting_Cons:
  "waiting (a # l) \<longleftrightarrow> (a = Rd V_display_fdbk \<or> a = CondWait) \<and> waiting l"
  by (simp add: waiting_def)

lemma waiting_held:
  "waiting l \<Longrightarrow>
   guarded (exempt Producer) True (l @ rest) = guarded (exempt Producer) True rest \<and>
   held_after True (l @ rest) = held_after True rest"
proof (induction l)
  case Nil
  show ?case by simp
next
  case (Cons a l)
  from Cons.prems have w: "waiting l" and a: "a = Rd V_display_fdbk \<or> a = CondWait"
    by (simp_all add: waiting_Cons)
  note ih = Cons.IH [OF w]
  from a show ?case
  proof
    assume "a = Rd V_display_fdbk"
    with ih show ?thesis by simp
  next
    assume "a = CondWait"
    with ih show ?thesis by simp
  qed
qed

lemma waiting_guarded [simp]:
  "waiting l \<Longrightarrow> guarded (exempt Producer) True (l @ rest) = guarded (exempt Producer) True rest"
  "waiting l \<Longrightarrow> held_after True (l @ rest) = held_after True rest"
  by (simp_all add: waiting_held)

lemma waiting_guarded_all [simp]:
  "waiting l \<Longrightarrow> guarded (exempt Producer) True l"
  "waiting l \<Longrightarrow> held_after True l"
  using waiting_held [of l "[]"] by simp_all

lemma waiting_no_push [simp]: "waiting l \<Longrightarrow> filter is_push l = []"
  by (auto simp: waiting_def filter_empty_conv)

lemma traced_discipline:
  "traced s s' \<Longrightarrow> guarded (exempt Producer) False (mine s s') \<Longrightarrow>
   lock_discipline exempt (new_actions s s')"
  by (simp add: traced_def lock_discipline_def mine_def)

text \<open>The three ways through \<^verbatim>\<open>video_display_frame\<close>.\<close>

lemma frame_null:
  "video_display_frame E NULL width height sz s =
     (Returned 0,
      if initialized s
      then push_event Producer
             \<lparr>evt_type = event_quit (preempt E (act Producer (Rd V_initialized) s)), data1 = NULL,
              data2 = \<lparr>size_w = 0, size_h = 0\<rparr>\<rparr>
             (preempt E (act Producer (Rd V_initialized) s))
      else act Producer (Rd V_initialized) s)"
  by (simp add: video_display_frame_def video_display_stop_thread_def Let_def)

lemma frame_running:
  "frame \<noteq> NULL \<Longrightarrow> initialized s \<Longrightarrow>
   video_display_frame E frame width height sz s =
     wait_feedback E (push_event Producer
        \<lparr>evt_type = event_frame (preempt E (set_display_fdbk Producer FDBK_NONE
                        (preempt E (act Producer (Rd V_initialized) s)))),
         data1 = frame, data2 = \<lparr>size_w = width, size_h = height\<rparr>\<rparr>
        (preempt E (set_display_fdbk Producer FDBK_NONE
           (preempt E (act Producer (Rd V_initialized) s)))))"
  by (simp add: video_display_frame_def Let_def)

lemma frame_first:
  "frame \<noteq> NULL \<Longrightarrow> \<not> initialized s \<Longrightarrow>
   video_display_frame E frame width height sz s =
     (let c = video_display_create_thread E
                (set_current_height Producer height
                  (preempt E (set_current_width Producer width
                    (preempt E (act Producer (Rd V_initialized) s)))))
      in case fst c of
           Blocked \<Rightarrow> (Blocked, snd c)
         | Returned x \<Rightarrow>
             if x < 0 then (Returned (- 1), snd c)
             else wait_feedback E (push_event Producer
                    \<lparr>evt_type = event_frame (preempt E (set_display_fdbk Producer FDBK_NONE
                                    (preempt E (snd c)))),
                     data1 = frame, data2 = \<lparr>size_w = width, size_h = height\<rparr>\<rparr>
                    (preempt E (set_display_fdbk Producer FDBK_NONE (preempt E (snd c))))))"
  by (simp add: video_display_frame_def Let_def split_beta split: outcome.split)

lemma create_thread_cases:
  "video_display_create_thread E s =
     (if pthread_create_rc (at_start E) < 0
      then (Returned (- 1),
            act Producer pthread_create
              (preempt E (set_display_fdbk Producer FDBK_NONE (preempt E s))))
      else wait_feedback E
             (if pthread_create_rc (at_start E) = 0
              then (act Producer pthread_create
                      (preempt E (set_display_fdbk Producer FDBK_NONE (preempt E s))))
                     \<lparr>thread := Starting\<rparr>
              else act Producer pthread_create
                     (preempt E (set_display_fdbk Producer FDBK_NONE (preempt E s)))))"
  by (simp add: video_display_create_thread_def Let_def)

subsection \<open>The display thread between the caller's actions\<close>

text \<open>
  Once the display thread is past its starting phase, the two event types stay what they are.
\<close>

definition started :: "world \<Rightarrow> world \<Rightarrow> bool" where
  "started s s' \<longleftrightarrow>
     event_frame s' = event_frame s \<and> event_quit s' = event_quit s \<and> thread s' \<noteq> Starting"

lemma step_started: "thread s \<noteq> Starting \<Longrightarrow> started s (renderer_step E s)"
proof (cases "can_run E s")
  case False
  assume "thread s \<noteq> Starting"
  with False show ?thesis by (simp add: step_idle started_def)
next
  case True
  assume n: "thread s \<noteq> Starting"
  show ?thesis
  proof (cases "thread s")
    case NoThread
    with True show ?thesis by (simp add: can_run_def)
  next
    case Starting
    with n show ?thesis by simp
  next
    case (InLoop cur)
    show ?thesis
    proof (cases "SDL_WaitEvent_rc (at_pass E (passes s)) = 0")
      case z: True
      show ?thesis by (simp add: step_error [OF InLoop z] started_def)
    next
      case nz: False
      with True InLoop obtain e q where q: "queue s = e # q"
        by (cases "queue s") (auto simp: can_run_def)
      show ?thesis by (simp add: step_event [OF InLoop nz q] started_def)
    qed
  qed
qed

lemma steps_started: "thread s \<noteq> Starting \<Longrightarrow> started s (renderer_steps n E s)"
proof (induction n arbitrary: s)
  case 0
  then show ?case by (simp add: started_def)
next
  case (Suc n)
  from step_started [OF Suc.prems] have a: "started s (renderer_step E s)" .
  then have "thread (renderer_step E s) \<noteq> Starting" by (simp add: started_def)
  from Suc.IH [OF this] a show ?case by (simp add: started_def)
qed

lemma preempt_started: "thread s \<noteq> Starting \<Longrightarrow> started s (preempt E s)"
  by (simp add: preempt_def steps_started)

lemma starting_feedback:
  "display_fdbk (snd (thread_starting e s)) = (if start_fails e then FDBK_FAIL else FDBK_OK)"
  "initialized (snd (thread_starting e s)) = (if start_fails e then initialized s else True)"
  "take 1 (new_actions s (snd (thread_starting e s))) = [(Renderer, Lock)]"
  by (simp_all add: start_fails_def st_defs)

lemma starting_handles:
  "\<not> start_fails e \<Longrightarrow>
   event_frame (snd (thread_starting e s)) = SDL_RegisterEvents_r e \<and>
   event_quit (snd (thread_starting e s)) = SDL_RegisterEvents_r e + 1"
  by (simp add: start_fails_def thread_starting_def Let_def split_beta set_size_result init_result
      init_handles)

lemma step_trace: "trace (renderer_step E s) = trace s @ new_actions s (renderer_step E s)"
  by (rule extends_trace) (rule step_extends)

text \<open>Without a display thread nothing happens when the caller is preempted.\<close>

lemma steps_idle: "thread s = NoThread \<Longrightarrow> renderer_steps n E s = s"
  by (induction n) (simp_all add: no_thread_idle)

lemma preempt_idle [simp]: "thread s = NoThread \<Longrightarrow> preempt E s = s"
  by (simp add: preempt_def steps_idle)

text \<open>The starting phase that fails, as one step.\<close>

lemma starting_failed_size:
  "start_fails e \<Longrightarrow>
   current_width (snd (thread_starting e s)) = current_width s \<and>
   current_height (snd (thread_starting e s)) = current_height s"
  by (simp add: start_fails_def thread_starting_def Let_def split_beta set_size_result init_result)

lemma starting_sync:
  "filter (\<lambda>x. sync_step (snd x)) (new_actions s (snd (thread_starting e s))) =
     (if start_fails e
      then [(Renderer, Wr V_display_fdbk (VFdbk FDBK_FAIL)), (Renderer, CondSignal)]
      else [(Renderer, Wr V_initialized (VBool True)),
            (Renderer, Wr V_display_fdbk (VFdbk FDBK_OK)), (Renderer, CondSignal)])"
  by (simp add: start_fails_def st_defs)

lemma starting_window:
  "thread x = Starting \<Longrightarrow> 0 \<le> SDL_Init_rc (at_start E) \<Longrightarrow>
   (Renderer, SDL_CreateWindow (current_width x) (current_height x))
     \<in> set (new_actions x (renderer_step E x))"
proof -
  assume t: "thread x = Starting" and i: "0 \<le> SDL_Init_rc (at_start E)"
  let ?ts = "thread_starting (at_start E) x"
  have "extends x (snd ?ts)" by (rule extendsI) (rule starting_trace)
  moreover have "extends (snd ?ts) (renderer_step E x)"
    by (rule extendsI [where d = "if fst ?ts then cleanup (snd ?ts) else []"])
      (simp add: step_starting [OF t])
  ultimately have "new_actions x (renderer_step E x) =
      new_actions x (snd ?ts) @ new_actions (snd ?ts) (renderer_step E x)"
    by (rule new_actions_trans)
  moreover have "(Renderer, SDL_CreateWindow (current_width x) (current_height x))
      \<in> set (new_actions x (snd ?ts))"
    using i by (simp add: st_defs)
  ultimately show ?thesis by simp
qed

lemma step_start_failed:
  assumes "thread x = Starting" and "start_fails (at_start E)"
  shows "thread (renderer_step E x) = NoThread" "\<not> initialized (renderer_step E x)"
    "queue (renderer_step E x) = queue x" "display_fdbk (renderer_step E x) = FDBK_FAIL"
    "current_width (renderer_step E x) = current_width x"
    "current_height (renderer_step E x) = current_height x"
    "filter (\<lambda>x. sync_step (snd x)) (new_actions x (renderer_step E x)) =
       [(Renderer, Wr V_display_fdbk (VFdbk FDBK_FAIL)), (Renderer, CondSignal),
        (Renderer, Wr V_initialized (VBool False))]"
    "(Renderer, CondSignal) \<in> set (new_actions x (renderer_step E x))"
proof -
  let ?ts = "thread_starting (at_start E) x"
  have st: "fst ?ts" using assms(2) by (simp add: starting_stopped)
  show "thread (renderer_step E x) = NoThread" "\<not> initialized (renderer_step E x)"
    "queue (renderer_step E x) = queue x" "display_fdbk (renderer_step E x) = FDBK_FAIL"
    "current_width (renderer_step E x) = current_width x"
    "current_height (renderer_step E x) = current_height x"
    using assms(2) st starting_failed_size [OF assms(2), of x]
    by (simp_all add: step_starting [OF assms(1)] starting_feedback)
  have n: "new_actions x (renderer_step E x) = new_actions x (snd ?ts) @ cleanup (snd ?ts)"
    by (rule new_actionsI) (simp add: step_starting [OF assms(1)] st starting_trace)
  show "filter (\<lambda>x. sync_step (snd x)) (new_actions x (renderer_step E x)) =
       [(Renderer, Wr V_display_fdbk (VFdbk FDBK_FAIL)), (Renderer, CondSignal),
        (Renderer, Wr V_initialized (VBool False))]"
    unfolding n using assms(2) by (simp add: starting_sync cleanup_def)
  show "(Renderer, CondSignal) \<in> set (new_actions x (renderer_step E x))"
    unfolding n using starting_signals [of x "at_start E"] by simp
qed

text \<open>The caller of lines 236 to 242 and a starting phase that fails.\<close>

lemma startup_failed:
  assumes s: "thread x = Starting" and n: "display_fdbk x = FDBK_NONE"
    and f: "start_fails (at_start E)"
  shows "fst (wait_feedback E x) = Returned (- 1)"
    and "thread (snd (wait_feedback E x)) = NoThread"
    and "\<not> initialized (snd (wait_feedback E x))"
    and "queue (snd (wait_feedback E x)) = queue x"
    and "display_fdbk (snd (wait_feedback E x)) = FDBK_FAIL"
    and "current_width (snd (wait_feedback E x)) = current_width x"
    and "current_height (snd (wait_feedback E x)) = current_height x"
    and "0 \<le> SDL_Init_rc (at_start E) \<longrightarrow>
       (Renderer, SDL_CreateWindow (current_width x) (current_height x))
         \<in> set (new_actions x (snd (wait_feedback E x)))"
    and "filter (\<lambda>x. sync_step (snd x)) (new_actions x (snd (wait_feedback E x))) =
       [(Renderer, Wr V_display_fdbk (VFdbk FDBK_FAIL)), (Renderer, CondSignal),
        (Renderer, Wr V_initialized (VBool False))]"
proof -
  let ?goal = "fst (wait_feedback E x) = Returned (- 1) \<and>
    thread (snd (wait_feedback E x)) = NoThread \<and>
    \<not> initialized (snd (wait_feedback E x)) \<and>
    queue (snd (wait_feedback E x)) = queue x \<and>
    display_fdbk (snd (wait_feedback E x)) = FDBK_FAIL \<and>
    current_width (snd (wait_feedback E x)) = current_width x \<and>
    current_height (snd (wait_feedback E x)) = current_height x \<and>
    (0 \<le> SDL_Init_rc (at_start E) \<longrightarrow>
       (Renderer, SDL_CreateWindow (current_width x) (current_height x))
         \<in> set (new_actions x (snd (wait_feedback E x)))) \<and>
    filter (\<lambda>x. sync_step (snd x)) (new_actions x (snd (wait_feedback E x))) =
       [(Renderer, Wr V_display_fdbk (VFdbk FDBK_FAIL)), (Renderer, CondSignal),
        (Renderer, Wr V_initialized (VBool False))]"
  have ?goal
  proof (cases "sched E (length (trace x))")
    case 0
    then have p: "preempt E x = x" by (simp add: preempt_def)
    let ?l = "act Producer Lock x"
    let ?w = "act Producer CondWait (act Producer (Rd V_display_fdbk) ?l)"
    let ?y = "renderer_step E ?w"
    have tw: "thread ?w = Starting" using s by simp
    note y = step_start_failed [OF tw f]
    have c: "can_run E ?w" using s by (simp add: can_run_def)
    have u: "until_signal E ?w = (True, ?y)"
      using c y(8) by (rule until_signal_now)
    have py: "preempt E ?y = ?y" using y(1) by simp
    have "wait_loop E ?l = wait_loop E ?y"
      using n by (simp add: wait_loop_step u py)
    also have "\<dots> = (True, act Producer (Rd V_display_fdbk) ?y)"
      using y(4) by (simp add: wait_loop_done)
    finally have wl: "wait_loop E ?l = (True, act Producer (Rd V_display_fdbk) ?y)" .
    have wf: "wait_feedback E x = (Returned (- 1),
        act Producer Unlock (act Producer (Rd V_display_fdbk) (act Producer (Rd V_display_fdbk) ?y)))"
      using y(4) by (simp add: wait_feedback_result p wl)
    have na: "new_actions x (snd (wait_feedback E x)) =
        [(Producer, Lock), (Producer, Rd V_display_fdbk), (Producer, CondWait)] @
        new_actions ?w ?y @
        [(Producer, Rd V_display_fdbk), (Producer, Rd V_display_fdbk), (Producer, Unlock)]"
      by (rule new_actionsI) (simp add: wf step_trace [of E ?w])
    show ?thesis
      unfolding na using y starting_window [OF tw, of E] by (simp add: wf)
  next
    case (Suc m)
    let ?y = "renderer_step E x"
    note y = step_start_failed [OF s f]
    have p: "preempt E x = ?y"
      using y(1) by (simp add: preempt_def Suc steps_idle)
    let ?l = "act Producer Lock ?y"
    have wl: "wait_loop E ?l = (True, act Producer (Rd V_display_fdbk) ?l)"
      using y(4) by (simp add: wait_loop_done)
    have wf: "wait_feedback E x = (Returned (- 1),
        act Producer Unlock (act Producer (Rd V_display_fdbk) (act Producer (Rd V_display_fdbk) ?l)))"
      using y(4) by (simp add: wait_feedback_result p wl)
    have na: "new_actions x (snd (wait_feedback E x)) =
        new_actions x ?y @
        [(Producer, Lock), (Producer, Rd V_display_fdbk), (Producer, Rd V_display_fdbk),
         (Producer, Unlock)]"
      by (rule new_actionsI) (simp add: wf step_trace [of E x])
    show ?thesis
      unfolding na using y starting_window [OF s, of E] by (simp add: wf)
  qed
  then show "fst (wait_feedback E x) = Returned (- 1)"
    and "thread (snd (wait_feedback E x)) = NoThread"
    and "\<not> initialized (snd (wait_feedback E x))"
    and "queue (snd (wait_feedback E x)) = queue x"
    and "display_fdbk (snd (wait_feedback E x)) = FDBK_FAIL"
    and "current_width (snd (wait_feedback E x)) = current_width x"
    and "current_height (snd (wait_feedback E x)) = current_height x"
    and "0 \<le> SDL_Init_rc (at_start E) \<longrightarrow>
       (Renderer, SDL_CreateWindow (current_width x) (current_height x))
         \<in> set (new_actions x (snd (wait_feedback E x)))"
    and "filter (\<lambda>x. sync_step (snd x)) (new_actions x (snd (wait_feedback E x))) =
       [(Renderer, Wr V_display_fdbk (VFdbk FDBK_FAIL)), (Renderer, CondSignal),
        (Renderer, Wr V_initialized (VBool False))]"
    by simp_all
qed

subsection \<open>The first call\<close>

lemma take_append_first: "take n a = l \<Longrightarrow> length l = n \<Longrightarrow> take n (a @ b) = l"
proof -
  assume a: "take n a = l" and b: "length l = n"
  from a b have "length (take n a) = n" by simp
  then have "n \<le> length a" by simp
  with a show ?thesis by simp
qed

text \<open>The first call: lines 258 to 262 with lines 224 to 236.\<close>

lemma feedback_sync: "is_feedback a \<Longrightarrow> sync_step a"
  by (induction a rule: is_feedback.induct) simp_all

lemma feedback_of_sync:
  "filter (\<lambda>x. is_feedback (snd x)) l =
   filter (\<lambda>x. is_feedback (snd x)) (filter (\<lambda>x. sync_step (snd x)) l)"
  by (induction l) (auto simp: feedback_sync)

lemma create_prefix:
  assumes "traced s s1"
  shows "traced s (snd (video_display_create_thread E s1))"
    and "\<exists>rest. mine s (snd (video_display_create_thread E s1)) =
           mine s s1 @ [Wr V_display_fdbk (VFdbk FDBK_NONE), pthread_create] @ rest"
  using assms by (simp_all add: create_thread_cases)

lemma first_prefix:
  assumes "frame \<noteq> NULL" and "\<not> initialized s"
  shows "take 5 (mine s (snd (video_display_frame E frame width height sz s))) =
     [Rd V_initialized, Wr V_current_width (VInt width), Wr V_current_height (VInt height),
      Wr V_display_fdbk (VFdbk FDBK_NONE), pthread_create]"
proof -
  let ?s3 = "set_current_height Producer height
                  (preempt E (set_current_width Producer width
                    (preempt E (act Producer (Rd V_initialized) s))))"
  let ?c = "video_display_create_thread E ?s3"
  let ?r = "video_display_frame E frame width height sz s"
  have t3: "traced s ?s3" by simp
  note c = create_prefix [OF t3, of E]
  from c(2) obtain rest where m: "mine s (snd ?c) =
      [Rd V_initialized, Wr V_current_width (VInt width), Wr V_current_height (VInt height),
       Wr V_display_fdbk (VFdbk FDBK_NONE), pthread_create] @ rest"
    by auto
  have "\<exists>more. mine s (snd ?r) = mine s (snd ?c) @ more"
  proof (cases "fst ?c")
    case Blocked
    then show ?thesis by (simp add: frame_first [OF assms] Let_def)
  next
    case (Returned x)
    with c(1) show ?thesis by (simp add: frame_first [OF assms] Let_def)
  qed
  then obtain more where "mine s (snd ?r) = mine s (snd ?c) @ more" by blast
  with m show ?thesis by simp
qed

subsection \<open>The states that the program reaches\<close>

text \<open>
  The states that the program reaches: \<^verbatim>\<open>initialized\<close> is set exactly while the display
  thread is inside its loop, where the type of the quit event is the type of the frame event
  plus one (line 82); \<open>settled\<close> when, moreover, no thread is waiting to run its starting
  phase, as it is between two calls of \<^verbatim>\<open>video_display_frame\<close>.
\<close>

definition consistent :: "world \<Rightarrow> bool" where
  "consistent s \<longleftrightarrow>
     (case thread s of
        NoThread \<Rightarrow> \<not> initialized s
      | Starting \<Rightarrow> \<not> initialized s
      | InLoop cur \<Rightarrow> initialized s \<and> event_quit s = event_frame s + 1)"

definition settled :: "world \<Rightarrow> bool" where
  "settled s \<longleftrightarrow> consistent s \<and> thread s \<noteq> Starting"

lemma consistent_prims [simp]:
  "consistent (act t a s) = consistent s"
  "consistent (set_display_fdbk t m s) = consistent s"
  "consistent (set_current_width t v s) = consistent s"
  "consistent (set_current_height t v s) = consistent s"
  "consistent (push_event t e s) = consistent s"
  "consistent (s\<lparr>thread := Starting\<rparr>) = (\<not> initialized s)"
  by (simp_all add: consistent_def split: thread_state.split)

lemma settled_prims [simp]:
  "settled (act t a s) = settled s"
  "settled (set_display_fdbk t m s) = settled s"
  "settled (set_current_width t v s) = settled s"
  "settled (set_current_height t v s) = settled s"
  "settled (push_event t e s) = settled s"
  by (simp_all add: settled_def)

lemma settled_world0: "settled world0"
  by (simp add: settled_def consistent_def world0_def)

lemma step_consistent: "consistent s \<Longrightarrow> consistent (renderer_step E s)"
proof (cases "can_run E s")
  case False
  assume "consistent s"
  with False show ?thesis by (simp add: step_idle)
next
  case True
  assume c: "consistent s"
  show ?thesis
  proof (cases "thread s")
    case NoThread
    with True show ?thesis by (simp add: can_run_def)
  next
    case Starting
    show ?thesis
      using starting_handles [of "at_start E" s]
      by (simp add: step_starting [OF Starting] consistent_def starting_feedback starting_stopped)
  next
    case (InLoop cur)
    show ?thesis
    proof (cases "SDL_WaitEvent_rc (at_pass E (passes s)) = 0")
      case z: True
      show ?thesis by (simp add: step_error [OF InLoop z] consistent_def)
    next
      case nz: False
      with True InLoop obtain e q where q: "queue s = e # q"
        by (cases "queue s") (auto simp: can_run_def)
      show ?thesis
        using c InLoop by (simp add: step_event [OF InLoop nz q] consistent_def)
    qed
  qed
qed

lemma step_leaves_starting: "thread (renderer_step E s) \<noteq> Starting"
proof (cases "thread s = Starting")
  case True
  then show ?thesis by (simp add: step_starting)
next
  case False
  from step_started [OF False, of E] show ?thesis by (simp add: started_def)
qed

lemma step_settled: "consistent s \<Longrightarrow> settled (renderer_step E s)"
  by (simp add: settled_def step_consistent step_leaves_starting)

lemma steps_consistent: "consistent s \<Longrightarrow> consistent (renderer_steps n E s)"
  by (induction n arbitrary: s) (simp_all add: step_consistent)

lemma preempt_settled: "settled s \<Longrightarrow> settled (preempt E s)"
  using preempt_started [of s E]
  by (simp add: settled_def started_def preempt_def steps_consistent)

lemma preempt_starting:
  assumes "consistent s" and "thread s = Starting \<longrightarrow> display_fdbk s = FDBK_NONE"
  shows "consistent (preempt E s)"
    and "thread (preempt E s) = Starting \<longrightarrow> display_fdbk (preempt E s) = FDBK_NONE"
proof -
  show "consistent (preempt E s)" using assms(1) by (simp add: preempt_def steps_consistent)
  show "thread (preempt E s) = Starting \<longrightarrow> display_fdbk (preempt E s) = FDBK_NONE"
  proof (cases "sched E (length (trace s))")
    case 0
    with assms(2) show ?thesis by (simp add: preempt_def)
  next
    case (Suc n)
    from steps_started [OF step_leaves_starting [of E s], of n E]
    show ?thesis by (simp add: preempt_def Suc started_def)
  qed
qed

lemma until_signal_settled:
  "consistent s \<Longrightarrow> settled (snd (until_signal E s))"
proof (induction E s rule: until_signal.induct)
  case (1 E s)
  show ?case
  proof (cases "can_run E s")
    case False
    then have "thread s \<noteq> Starting" by (auto simp: can_run_def)
    with False "1.prems" show ?thesis by (simp add: until_signal_idle settled_def)
  next
    case True
    show ?thesis
    proof (cases "(Renderer, CondSignal) \<in> set (new_actions s (renderer_step E s))")
      case s: True
      with True "1.prems" show ?thesis by (simp add: until_signal_now step_settled)
    next
      case n: False
      have "settled (snd (until_signal E (renderer_step E s)))"
        using True n "1.prems" by (intro "1.IH") (simp_all add: step_consistent)
      with True n show ?thesis by (simp add: until_signal_later)
    qed
  qed
qed

lemma wait_loop_settled:
  "consistent s \<and> (thread s = Starting \<longrightarrow> display_fdbk s = FDBK_NONE) \<longrightarrow>
   settled (snd (wait_loop E s))"
proof (rule wait_loop_rule [where R = "\<lambda>s r.
    consistent s \<and> (thread s = Starting \<longrightarrow> display_fdbk s = FDBK_NONE) \<longrightarrow> settled (snd r)"])
  fix s :: world
  assume "display_fdbk s \<noteq> FDBK_NONE"
  then show "consistent s \<and> (thread s = Starting \<longrightarrow> display_fdbk s = FDBK_NONE) \<longrightarrow>
      settled (snd (True, act Producer (Rd V_display_fdbk) s))"
    by (auto simp: settled_def)
next
  fix s :: world
  let ?w = "act Producer CondWait (act Producer (Rd V_display_fdbk) s)"
  show "consistent s \<and> (thread s = Starting \<longrightarrow> display_fdbk s = FDBK_NONE) \<longrightarrow>
      settled (snd (False, snd (until_signal E ?w)))"
    using until_signal_settled [of ?w E] by simp
next
  fix s :: world
  let ?w = "act Producer CondWait (act Producer (Rd V_display_fdbk) s)"
  let ?p = "preempt E (snd (until_signal E ?w))"
  assume ih: "consistent ?p \<and> (thread ?p = Starting \<longrightarrow> display_fdbk ?p = FDBK_NONE) \<longrightarrow>
      settled (snd (wait_loop E ?p))"
  show "consistent s \<and> (thread s = Starting \<longrightarrow> display_fdbk s = FDBK_NONE) \<longrightarrow>
      settled (snd (wait_loop E ?p))"
  proof
    assume "consistent s \<and> (thread s = Starting \<longrightarrow> display_fdbk s = FDBK_NONE)"
    then have "settled (snd (until_signal E ?w))"
      using until_signal_settled [of ?w E] by simp
    then have "settled ?p" by (rule preempt_settled)
    with ih show "settled (snd (wait_loop E ?p))" by (simp add: settled_def)
  qed
qed

lemma wait_feedback_settled:
  assumes "consistent x" and "thread x = Starting \<longrightarrow> display_fdbk x = FDBK_NONE"
  shows "settled (snd (wait_feedback E x))"
proof -
  note p = preempt_starting [OF assms, of E]
  with wait_loop_settled [of "act Producer Lock (preempt E x)" E]
  show ?thesis by (simp add: wait_feedback_result)
qed

lemma wait_feedback_settled2: "settled x \<Longrightarrow> settled (snd (wait_feedback E x))"
  by (rule wait_feedback_settled) (simp_all add: settled_def)

text \<open>A call of \<^verbatim>\<open>video_display_frame\<close> made in a settled state leaves a settled state.\<close>

lemma frame_settled:
  assumes "settled s"
  shows "settled (snd (video_display_frame E frame width height sz s))"
proof (cases "frame = NULL")
  case True
  with assms show ?thesis by (simp add: frame_null preempt_settled)
next
  case False
  show ?thesis
  proof (cases "initialized s")
    case True
    from assms show ?thesis
      by (simp add: frame_running [OF False True] wait_feedback_settled2 preempt_settled)
  next
    case ni: False
    with assms have nt: "thread s = NoThread"
      by (cases "thread s") (simp_all add: settled_def consistent_def)
    let ?s3 = "set_current_height Producer height
        (set_current_width Producer width (act Producer (Rd V_initialized) s))"
    let ?y = "act Producer pthread_create (set_display_fdbk Producer FDBK_NONE ?s3)"
    let ?c = "video_display_create_thread E
                (set_current_height Producer height
                  (preempt E (set_current_width Producer width
                    (preempt E (act Producer (Rd V_initialized) s)))))"
    have y: "settled ?y" "\<not> initialized ?y" using assms ni by simp_all
    have "settled (snd (wait_feedback E (?y\<lparr>thread := Starting\<rparr>)))"
      using ni by (intro wait_feedback_settled) simp_all
    with y(1) have c: "settled (snd ?c)"
      using nt by (simp add: create_thread_cases wait_feedback_settled2)
    show ?thesis
    proof (cases "fst ?c")
      case Blocked
      with c show ?thesis by (simp add: frame_first [OF False ni] Let_def)
    next
      case (Returned x)
      with c show ?thesis
        by (simp add: frame_first [OF False ni] Let_def wait_feedback_settled2 preempt_settled)
    qed
  qed
qed

text \<open>
  A display thread that is inside its loop with a quit event in the queue ends as soon as it
  has been given the time to read the queue as far as that event.
\<close>

lemma run_to_quit:
  "settled s \<Longrightarrow> (thread s \<noteq> NoThread \<longrightarrow> (\<exists>e\<in>set (queue s). evt_type e = event_quit s)) \<Longrightarrow>
   thread (renderer_run E s) = NoThread \<and> \<not> initialized (renderer_run E s)"
proof (induction E s rule: renderer_run.induct)
  case (1 E s)
  note st = "1.prems"(1) and qu = "1.prems"(2)
  show ?case
  proof (cases "can_run E s")
    case False
    have "thread s = NoThread"
    proof (cases "thread s")
      case NoThread
      then show ?thesis .
    next
      case (InLoop cur)
      with qu have "queue s \<noteq> []" by auto
      with InLoop False show ?thesis by (simp add: can_run_def)
    next
      case Starting
      with st show ?thesis by (simp add: settled_def)
    qed
    with st False show ?thesis
      by (simp add: renderer_run.simps [of E s] settled_def consistent_def)
  next
    case True
    from True st obtain cur where cur: "thread s = InLoop cur"
      by (cases "thread s") (auto simp: can_run_def settled_def)
    with st have eq: "event_quit s = event_frame s + 1"
      by (simp add: settled_def consistent_def)
    have "thread (renderer_step E s) \<noteq> NoThread \<longrightarrow>
        (\<exists>e\<in>set (queue (renderer_step E s)). evt_type e = event_quit (renderer_step E s))"
    proof (cases "SDL_WaitEvent_rc (at_pass E (passes s)) = 0")
      case z: True
      show ?thesis by (simp add: step_error [OF cur z])
    next
      case nz: False
      with True cur obtain e q where q: "queue s = e # q"
        by (cases "queue s") (auto simp: can_run_def)
      show ?thesis
      proof (cases "evt_type e = event_quit s")
        case t: True
        with eq have "evt_type e \<noteq> event_frame s" by simp
        with t have "fst (handle_event (at_pass E (passes s)) e False
            ((act Renderer SDL_WaitEvent s)\<lparr>queue := q\<rparr>))"
          by (simp add: handle_event_def)
        then show ?thesis by (simp add: step_event [OF cur nz q])
      next
        case False
        with qu cur q show ?thesis
          by (auto simp add: step_event [OF cur nz q])
      qed
    qed
    moreover from st have "settled (renderer_step E s)"
      by (intro step_settled) (simp add: settled_def)
    ultimately have
      "thread (renderer_run E (renderer_step E s)) = NoThread \<and>
       \<not> initialized (renderer_run E (renderer_step E s))"
      using True by (intro "1.IH") simp_all
    with True show ?thesis by (simp add: renderer_run.simps [of E s])
  qed
qed

text \<open>The running state of the examples is the state after a first frame of 640 by 480.\<close>

lemma world_running_reached:
  "(snd (video_display_frame env_ok 7 640 480 460800 world0))\<lparr>trace := []\<rparr> = world_running"
  by code_simp

section \<open>Properties\<close>

text \<open>
  C10. Two calls of \<^verbatim>\<open>video_display_frame\<close> that differ only in the byte count
  \<^verbatim>\<open>size\<close> return the same result and leave the same state: no function of the file reads
  that parameter.
\<close>

theorem size_parameter_unused:
  "video_display_frame E frame width height size1 s =
   video_display_frame E frame width height size2 s"
  by (simp add: video_display_frame_def)

subsection \<open>The starting phase\<close>

lemma starting_fail:
  "thread s = Starting \<Longrightarrow> start_fails (at_start E) \<Longrightarrow>
   (let s' = renderer_step E s; new = new_actions s s' in
      display_fdbk s' = FDBK_FAIL \<and> \<not> initialized s' \<and> thread s' = NoThread \<and>
      filter (\<lambda>x. sync_step (snd x)) new =
        [(Renderer, Wr V_display_fdbk (VFdbk FDBK_FAIL)), (Renderer, CondSignal),
         (Renderer, Wr V_initialized (VBool False))] \<and>
      (Renderer, SDL_WaitEvent) \<notin> set new \<and> queue s' = queue s \<and> passes s' = passes s \<and>
      last new = (Renderer, pthread_exit))"
  by (simp add: step_starting start_fails_def st_defs cleanup_def) blast?

lemma starting_ok:
  "thread s = Starting \<Longrightarrow> \<not> start_fails (at_start E) \<Longrightarrow>
   (let s' = renderer_step E s; new = new_actions s s' in
      display_fdbk s' = FDBK_OK \<and> initialized s' \<and>
      thread s' = InLoop (stack_evt (at_start E)) \<and>
      filter (\<lambda>x. sync_step (snd x)) new =
        [(Renderer, Wr V_initialized (VBool True)), (Renderer, Wr V_display_fdbk (VFdbk FDBK_OK)),
         (Renderer, CondSignal)] \<and>
      (Renderer, SDL_WaitEvent) \<notin> set new \<and> queue s' = queue s \<and> passes s' = passes s)"
  by (simp add: step_starting start_fails_def st_defs cleanup_def) blast?

text \<open>
  C5. The starting phase of the display thread. If the initialisation or the first texture
  fails, the thread writes \<open>FDBK_FAIL\<close>, signals, and ends: it never calls
  \<^verbatim>\<open>SDL_WaitEvent\<close>, takes no event from the queue and makes no pass through the loop.
  If both succeed it sets \<^verbatim>\<open>initialized\<close>, writes \<open>FDBK_OK\<close>, signals, and is inside the
  loop. The list gives the writes of the two variables and the signal, in order.
\<close>

theorem starting_phase:
  assumes "thread s = Starting"
  shows "let s' = renderer_step E s; new = new_actions s s' in
     if start_fails (at_start E)
     then display_fdbk s' = FDBK_FAIL \<and> \<not> initialized s' \<and> thread s' = NoThread \<and>
          filter (\<lambda>x. sync_step (snd x)) new =
            [(Renderer, Wr V_display_fdbk (VFdbk FDBK_FAIL)), (Renderer, CondSignal),
             (Renderer, Wr V_initialized (VBool False))] \<and>
          (Renderer, SDL_WaitEvent) \<notin> set new \<and> queue s' = queue s \<and> passes s' = passes s \<and>
          last new = (Renderer, pthread_exit)
     else display_fdbk s' = FDBK_OK \<and> initialized s' \<and>
          thread s' = InLoop (stack_evt (at_start E)) \<and>
          filter (\<lambda>x. sync_step (snd x)) new =
            [(Renderer, Wr V_initialized (VBool True)),
             (Renderer, Wr V_display_fdbk (VFdbk FDBK_OK)), (Renderer, CondSignal)] \<and>
          (Renderer, SDL_WaitEvent) \<notin> set new \<and> queue s' = queue s \<and> passes s' = passes s"
proof (cases "start_fails (at_start E)")
  case True
  with starting_fail [OF assms True] show ?thesis by (simp add: Let_def)
next
  case False
  with starting_ok [OF assms False] show ?thesis by (simp add: Let_def)
qed

theorem starting_phase_witness:
  "display_fdbk (renderer_step env_ok (world0\<lparr>thread := Starting\<rparr>)) = FDBK_OK \<and>
   initialized (renderer_step env_ok (world0\<lparr>thread := Starting\<rparr>)) \<and>
   thread (renderer_step env_ok (world0\<lparr>thread := Starting\<rparr>)) = InLoop no_evt \<and>
   display_fdbk (renderer_step env_no_texture (world0\<lparr>thread := Starting\<rparr>)) = FDBK_FAIL \<and>
   thread (renderer_step env_no_texture (world0\<lparr>thread := Starting\<rparr>)) = NoThread"
proof -
  have h: "thread (world0\<lparr>thread := Starting\<rparr>) = Starting" by simp
  have ok: "\<not> start_fails (at_start env_ok)"
    by (simp add: start_fails_def concrete_defs)
  have bad: "start_fails (at_start env_no_texture)"
    by (simp add: start_fails_def concrete_defs)
  have s: "stack_evt (at_start env_ok) = no_evt"
    by (simp add: concrete_defs)
  from starting_phase [OF h, of env_ok] starting_phase [OF h, of env_no_texture] ok bad s
  show ?thesis by (simp add: Let_def)
qed

subsection \<open>Frame events\<close>

text \<open>
  C2. A frame event received in the loop is handled with exactly one resize when its width
  or height differs from the current size, and with none when both are equal. A resize is one
  \<^verbatim>\<open>SDL_SetWindowSize\<close> and one \<^verbatim>\<open>SDL_CreateTexture\<close> with the size of the event; no
  such call follows the \<^verbatim>\<open>SDL_UpdateTexture\<close> of the pass. When the new texture has been
  created, the size of the event is the current size afterwards; when the sizes are equal,
  or the texture could not be created, the current size is what it was.
\<close>

theorem resize_once:
  assumes "frame_received E e s"
  shows "let s' = renderer_step E s; new = new_actions s s';
             tex = SDL_CreateTexture_r (at_pass E (passes s)) in
     filter (\<lambda>x. is_resize (snd x)) new =
       (if size_differs e s
        then [(Renderer, SDL_SetWindowSize (win s) (size_w (data2 e)) (size_h (data2 e))),
              (Renderer, SDL_CreateTexture (renderer s) (size_w (data2 e)) (size_h (data2 e)))]
        else []) \<and>
     filter (\<lambda>x. is_resize (snd x)) (dropWhile (\<lambda>x. \<not> is_upload (snd x)) new) = [] \<and>
     (if size_differs e s \<and> tex \<noteq> NULL
      then current_width s' = size_w (data2 e) \<and> current_height s' = size_h (data2 e) \<and>
           frameTex s' = tex
      else current_width s' = current_width s \<and> current_height s' = current_height s)"
proof -
  from frame_receivedD [OF assms] obtain cur q where
    h: "thread s = InLoop cur" "SDL_WaitEvent_rc (at_pass E (passes s)) \<noteq> 0" "queue s = e # q"
    and f: "evt_type e = event_frame s" by blast
  let ?p = "at_pass E (passes s)"
  let ?s1 = "(act Renderer SDL_WaitEvent s)\<lparr>queue := q\<rparr>"
  let ?H = "new_actions ?s1 (snd (handle_frame ?p e False ?s1))"
  have he: "handle_event ?p e False ?s1 = handle_frame ?p e False ?s1"
    using f by (simp add: handle_event_frame)
  have new: "new_actions s (renderer_step E s) =
      (Renderer, SDL_WaitEvent) # ?H @
         [(Renderer, SDL_RenderClear (renderer s)),
          (Renderer, SDL_RenderCopy (renderer s) (frameTex (snd (handle_frame ?p e False ?s1)))),
          (Renderer, SDL_RenderPresent (renderer s))] @
         (if fst (handle_frame ?p e False ?s1) then cleanup (snd (handle_frame ?p e False ?s1)) else [])"
    using pass_actions_event [OF h] by (simp add: Let_def he)
  have a: "filter (\<lambda>x. is_resize (snd x)) (new_actions s (renderer_step E s)) =
       (if size_differs e s
        then [(Renderer, SDL_SetWindowSize (win s) (size_w (data2 e)) (size_h (data2 e))),
              (Renderer, SDL_CreateTexture (renderer s) (size_w (data2 e)) (size_h (data2 e)))]
        else [])"
    by (simp add: new handle_frame_resize cleanup_def)
  have "filter (\<lambda>x. is_resize (snd x)) (dropWhile (\<lambda>x. \<not> is_upload (snd x))
          (?H @ [(Renderer, SDL_RenderClear (renderer s)),
          (Renderer, SDL_RenderCopy (renderer s) (frameTex (snd (handle_frame ?p e False ?s1)))),
          (Renderer, SDL_RenderPresent (renderer s))] @
         (if fst (handle_frame ?p e False ?s1) then cleanup (snd (handle_frame ?p e False ?s1)) else []))) = []"
    by (rule filter_dropWhile_append) (simp_all add: handle_frame_upload_last cleanup_def)
  then have b: "filter (\<lambda>x. is_resize (snd x)) (dropWhile (\<lambda>x. \<not> is_upload (snd x))
          (new_actions s (renderer_step E s))) = []"
    by (simp add: new)
  have c: "current_width (renderer_step E s) =
       (if size_differs e s \<and> SDL_CreateTexture_r ?p \<noteq> NULL then size_w (data2 e) else current_width s)"
       "current_height (renderer_step E s) =
       (if size_differs e s \<and> SDL_CreateTexture_r ?p \<noteq> NULL then size_h (data2 e) else current_height s)"
       "frameTex (renderer_step E s) = (if size_differs e s then SDL_CreateTexture_r ?p else frameTex s)"
    by (simp_all add: step_event [OF h] he handle_frame_size)
  from a b c show ?thesis by (simp add: Let_def)
qed

theorem resize_once_witness:
  "filter (\<lambda>x. is_resize (snd x)) (new_actions world_resize (renderer_step env_ok world_resize)) =
     [(Renderer, SDL_SetWindowSize 1 1280 720), (Renderer, SDL_CreateTexture 2 1280 720)] \<and>
   current_width (renderer_step env_ok world_resize) = 1280 \<and>
   current_height (renderer_step env_ok world_resize) = 720 \<and>
   filter (\<lambda>x. is_resize (snd x))
     (new_actions world_same_size (renderer_step env_ok world_same_size)) = []"
proof -
  have a: "frame_received env_ok (frame_evt 8 1280 720) world_resize"
    by (simp add: frame_received_def concrete_defs)
  have b: "frame_received env_ok (frame_evt 8 640 480) world_same_size"
    by (simp add: frame_received_def concrete_defs)
  from resize_once [OF a] resize_once [OF b] show ?thesis
    by (simp add: Let_def size_differs_def concrete_defs)
qed


text \<open>
  C6. A frame event received in the loop. If the resize fails, the thread writes
  \<open>FDBK_FAIL\<close>, never calls \<^verbatim>\<open>SDL_UpdateTexture\<close>, signals and ends. If the upload fails,
  it writes \<open>FDBK_FAIL\<close>, signals and ends. Otherwise it writes \<open>FDBK_OK\<close>, signals and
  stays in the loop. In each case the pass writes the feedback variable once, signals once,
  after the write, and the value left in the variable is not \<open>FDBK_NONE\<close>.
\<close>

theorem frame_feedback:
  assumes "frame_received E e s"
  shows "let s' = renderer_step E s; new = new_actions s s' in
     (if resize_fails E e s
      then display_fdbk s' = FDBK_FAIL \<and> thread s' = NoThread \<and>
           filter (\<lambda>x. is_upload (snd x)) new = []
      else if upload_fails E s
      then display_fdbk s' = FDBK_FAIL \<and> thread s' = NoThread
      else display_fdbk s' = FDBK_OK \<and> thread s' = InLoop e) \<and>
     filter (\<lambda>x. is_feedback (snd x)) new =
       [(Renderer, Wr V_display_fdbk (VFdbk (display_fdbk s'))), (Renderer, CondSignal)] \<and>
     display_fdbk s' \<noteq> FDBK_NONE"
proof -
  from frame_receivedD [OF assms] obtain cur q where
    h: "thread s = InLoop cur" "SDL_WaitEvent_rc (at_pass E (passes s)) \<noteq> 0" "queue s = e # q"
    and f: "evt_type e = event_frame s" by blast
  let ?p = "at_pass E (passes s)"
  let ?s1 = "(act Renderer SDL_WaitEvent s)\<lparr>queue := q\<rparr>"
  let ?h = "handle_frame ?p e False ?s1"
  have he: "handle_event ?p e False ?s1 = ?h"
    using f by (simp add: handle_event_frame)
  have new: "new_actions s (renderer_step E s) =
      (Renderer, SDL_WaitEvent) # new_actions ?s1 (snd ?h) @
         [(Renderer, SDL_RenderClear (renderer s)),
          (Renderer, SDL_RenderCopy (renderer s) (frameTex (snd ?h))),
          (Renderer, SDL_RenderPresent (renderer s))] @
         (if fst ?h then cleanup (snd ?h) else [])"
    using pass_actions_event [OF h] by (simp add: Let_def he)
  have st: "display_fdbk (renderer_step E s) = display_fdbk (snd ?h)"
    "thread (renderer_step E s) = (if fst ?h then NoThread else InLoop e)"
    by (simp_all add: step_event [OF h] he)
  have a: "filter (\<lambda>x. is_feedback (snd x)) (new_actions s (renderer_step E s)) =
       [(Renderer, Wr V_display_fdbk (VFdbk (display_fdbk (renderer_step E s)))),
        (Renderer, CondSignal)]"
    by (simp add: new st handle_frame_feedback cleanup_def)
  have b: "resize_fails E e s \<Longrightarrow>
      filter (\<lambda>x. is_upload (snd x)) (new_actions s (renderer_step E s)) = []"
    by (simp add: new handle_frame_outcome resize_fails_def cleanup_def)
  have c: "display_fdbk (renderer_step E s) =
      (if resize_fails E e s \<or> upload_fails E s then FDBK_FAIL else FDBK_OK)"
    "thread (renderer_step E s) =
      (if resize_fails E e s \<or> upload_fails E s then NoThread else InLoop e)"
    by (simp_all add: st handle_frame_outcome resize_fails_def upload_fails_def)
  from a b c show ?thesis by (simp add: Let_def)
qed

theorem frame_feedback_witness:
  "display_fdbk (renderer_step env_ok world_resize) = FDBK_OK \<and>
   thread (renderer_step env_ok world_resize) = InLoop (frame_evt 8 1280 720) \<and>
   display_fdbk (renderer_step env_no_resize world_resize) = FDBK_FAIL \<and>
   thread (renderer_step env_no_resize world_resize) = NoThread \<and>
   filter (\<lambda>x. is_upload (snd x))
     (new_actions world_resize (renderer_step env_no_resize world_resize)) = []"
proof -
  have a: "frame_received env_ok (frame_evt 8 1280 720) world_resize"
    by (simp add: frame_received_def concrete_defs)
  have b: "frame_received env_no_resize (frame_evt 8 1280 720) world_resize"
    by (simp add: frame_received_def concrete_defs)
  have c: "\<not> resize_fails env_ok (frame_evt 8 1280 720) world_resize"
    "\<not> upload_fails env_ok world_resize"
    "resize_fails env_no_resize (frame_evt 8 1280 720) world_resize"
    by (simp_all add: resize_fails_def upload_fails_def size_differs_def concrete_defs)
  from frame_feedback [OF a] frame_feedback [OF b] c show ?thesis
    by (simp add: Let_def)
qed


subsection \<open>The redraw\<close>

text \<open>
  C8. Every pass through the loop starts with \<^verbatim>\<open>SDL_WaitEvent\<close> and, whatever the event
  was (a frame, a quit request, the window being closed, any other event, or a failed wait),
  redraws exactly once: one \<^verbatim>\<open>SDL_RenderClear\<close>, one \<^verbatim>\<open>SDL_RenderCopy\<close> of the current
  texture, one \<^verbatim>\<open>SDL_RenderPresent\<close>, in this order, after everything the event made the
  thread do; only the end of the thread can follow.
\<close>

theorem redraw_every_pass:
  assumes "thread s = InLoop cur" and "can_run E s"
  shows "let s' = renderer_step E s; new = new_actions s s' in
     hd new = (Renderer, SDL_WaitEvent) \<and>
     filter (\<lambda>x. is_render (snd x)) new =
       [(Renderer, SDL_RenderClear (renderer s')),
        (Renderer, SDL_RenderCopy (renderer s') (frameTex s')),
        (Renderer, SDL_RenderPresent (renderer s'))] \<and>
     dropWhile (\<lambda>x. \<not> is_render (snd x)) new =
       [(Renderer, SDL_RenderClear (renderer s')),
        (Renderer, SDL_RenderCopy (renderer s') (frameTex s')),
        (Renderer, SDL_RenderPresent (renderer s'))] @
       (if thread s' = NoThread then cleanup s' else [])"
proof (cases "SDL_WaitEvent_rc (at_pass E (passes s)) = 0")
  case True
  note h = assms(1) True
  let ?h = "handle_event (at_pass E (passes s)) cur True (act Renderer SDL_WaitEvent s)"
  have nr: "filter (\<lambda>x. is_render (snd x)) (new_actions (act Renderer SDL_WaitEvent s) (snd ?h)) = []"
    by (rule handle_event_no_render)
  have f: "renderer (renderer_step E s) = renderer s" "frameTex (renderer_step E s) = frameTex (snd ?h)"
    "thread (renderer_step E s) = NoThread" "win (renderer_step E s) = win s"
    by (simp_all add: step_error [OF h])
  show ?thesis
    using pass_actions_error [OF h] nr
    by (simp add: Let_def f cleanup_def dropWhile_skip)
next
  case False
  with assms obtain e q where q: "queue s = e # q"
    by (cases "queue s") (auto simp: can_run_def)
  note h = assms(1) False q
  let ?s1 = "(act Renderer SDL_WaitEvent s)\<lparr>queue := q\<rparr>"
  let ?h = "handle_event (at_pass E (passes s)) e False ?s1"
  have nr: "filter (\<lambda>x. is_render (snd x)) (new_actions ?s1 (snd ?h)) = []"
    by (rule handle_event_no_render)
  have f: "renderer (renderer_step E s) = renderer s" "frameTex (renderer_step E s) = frameTex (snd ?h)"
    "thread (renderer_step E s) = (if fst ?h then NoThread else InLoop e)"
    "win (renderer_step E s) = win s"
    by (simp_all add: step_event [OF h])
  show ?thesis
    using pass_actions_event [OF h] nr
    by (simp add: Let_def f cleanup_def dropWhile_skip)
qed

theorem redraw_every_pass_witness:
  "filter (\<lambda>x. is_render (snd x))
     (new_actions world_other_event (renderer_step env_ok world_other_event)) =
     [(Renderer, SDL_RenderClear 2), (Renderer, SDL_RenderCopy 2 3), (Renderer, SDL_RenderPresent 2)] \<and>
   new_actions world_other_event (renderer_step env_ok world_other_event) =
     [(Renderer, SDL_WaitEvent), (Renderer, SDL_RenderClear 2), (Renderer, SDL_RenderCopy 2 3),
      (Renderer, SDL_RenderPresent 2)]"
proof -
  have a: "thread world_other_event = InLoop (frame_evt 7 640 480)"
    by (simp add: concrete_defs)
  have b: "can_run env_ok world_other_event"
    by (simp add: can_run_def concrete_defs)
  have c: "SDL_WaitEvent_rc (at_pass env_ok (passes world_other_event)) \<noteq> 0"
    "queue world_other_event = [no_evt]"
    by (simp_all add: concrete_defs)
  have d: "new_actions world_other_event (renderer_step env_ok world_other_event) =
     [(Renderer, SDL_WaitEvent), (Renderer, SDL_RenderClear 2), (Renderer, SDL_RenderCopy 2 3),
      (Renderer, SDL_RenderPresent 2)]"
    using pass_actions_event [OF a c]
    by (simp add: handle_event_def concrete_defs)
  from redraw_every_pass [OF a b] d show ?thesis
    by (simp add: Let_def)
qed

subsection \<open>The end of the thread\<close>

text \<open>
  C7. Whenever a step of the display thread ends the thread, the last six actions of the step
  are \<^verbatim>\<open>SDL_DestroyTexture\<close>, \<^verbatim>\<open>SDL_DestroyRenderer\<close>, \<^verbatim>\<open>SDL_DestroyWindow\<close>,
  \<^verbatim>\<open>SDL_Quit\<close>, the write of 0 to \<^verbatim>\<open>initialized\<close> and \<^verbatim>\<open>pthread_exit\<close>: texture,
  drawing context, window, library, the reverse of the order in which a successful starting
  phase acquires them (second part). Afterwards \<^verbatim>\<open>initialized\<close> is 0 and the thread takes no
  further step, whatever the queue holds. A quit request, the window being closed and a failed
  wait each end the thread (third and fourth part); the failures of a frame are in C6, those of
  the starting phase in C5.
\<close>

theorem thread_end_releases:
  "(thread s \<noteq> NoThread \<and> thread (renderer_step E s) = NoThread \<longrightarrow>
      (let s' = renderer_step E s; new = new_actions s s' in
         drop (length new - 6) new =
           [(Renderer, SDL_DestroyTexture (frameTex s')), (Renderer, SDL_DestroyRenderer (renderer s')),
            (Renderer, SDL_DestroyWindow (win s')), (Renderer, SDL_Quit),
            (Renderer, Wr V_initialized (VBool False)), (Renderer, pthread_exit)] \<and>
         List.map_filter (\<lambda>x. released (snd x)) (drop (length new - 6) new) =
           rev [Subsystem, Window, Context, Texture] \<and>
         \<not> initialized s' \<and>
         (\<forall>E'. \<not> can_run E' s' \<and> renderer_step E' s' = s' \<and> renderer_run E' s' = s'))) \<and>
   (thread s = Starting \<and> \<not> start_fails (at_start E) \<longrightarrow>
      List.map_filter (\<lambda>x. acquired (snd x)) (new_actions s (renderer_step E s)) =
        [Subsystem, Window, Context, Texture]) \<and>
   (\<forall>cur e q. thread s = InLoop cur \<and> SDL_WaitEvent_rc (at_pass E (passes s)) \<noteq> 0 \<and>
       queue s = e # q \<and> evt_type e \<noteq> event_frame s \<and>
       (evt_type e = event_quit s \<or> evt_type e = SDL_QUIT) \<longrightarrow>
       thread (renderer_step E s) = NoThread) \<and>
   (\<forall>cur. thread s = InLoop cur \<and> SDL_WaitEvent_rc (at_pass E (passes s)) = 0 \<longrightarrow>
       thread (renderer_step E s) = NoThread)"
proof (intro conjI impI allI)
  assume a: "thread s \<noteq> NoThread \<and> thread (renderer_step E s) = NoThread"
  then obtain A where A: "new_actions s (renderer_step E s) = A @ cleanup (renderer_step E s)"
    using leaving_suffix by blast
  have "length (cleanup (renderer_step E s)) = 6" by (simp add: cleanup_def)
  then have d: "drop (length (new_actions s (renderer_step E s)) - 6) (new_actions s (renderer_step E s)) =
      cleanup (renderer_step E s)"
    unfolding A by (rule drop_suffix)
  from a have i: "\<not> initialized (renderer_step E s)"
    using leaving_uninitialized by blast
  from a have n: "\<forall>E'. \<not> can_run E' (renderer_step E s) \<and>
      renderer_step E' (renderer_step E s) = renderer_step E s \<and>
      renderer_run E' (renderer_step E s) = renderer_step E s"
    using no_thread_idle by blast
  show "let s' = renderer_step E s; new = new_actions s s' in
         drop (length new - 6) new =
           [(Renderer, SDL_DestroyTexture (frameTex s')), (Renderer, SDL_DestroyRenderer (renderer s')),
            (Renderer, SDL_DestroyWindow (win s')), (Renderer, SDL_Quit),
            (Renderer, Wr V_initialized (VBool False)), (Renderer, pthread_exit)] \<and>
         List.map_filter (\<lambda>x. released (snd x)) (drop (length new - 6) new) =
           rev [Subsystem, Window, Context, Texture] \<and>
         \<not> initialized s' \<and>
         (\<forall>E'. \<not> can_run E' s' \<and> renderer_step E' s' = s' \<and> renderer_run E' s' = s')"
    unfolding Let_def d using i n by (simp add: cleanup_def List.map_filter_simps)
next
  assume "thread s = Starting \<and> \<not> start_fails (at_start E)"
  then have s: "thread s = Starting" and f: "\<not> start_fails (at_start E)" by simp_all
  have "new_actions s (renderer_step E s) = new_actions s (snd (thread_starting (at_start E) s))"
    by (rule new_actionsI) (simp add: step_starting [OF s] starting_stopped f starting_trace)
  then show "List.map_filter (\<lambda>x. acquired (snd x)) (new_actions s (renderer_step E s)) =
        [Subsystem, Window, Context, Texture]"
    by (simp add: starting_acquires [OF f])
next
  fix cur e q
  assume "thread s = InLoop cur \<and> SDL_WaitEvent_rc (at_pass E (passes s)) \<noteq> 0 \<and>
       queue s = e # q \<and> evt_type e \<noteq> event_frame s \<and>
       (evt_type e = event_quit s \<or> evt_type e = SDL_QUIT)"
  then show "thread (renderer_step E s) = NoThread"
    using quit_leaves by blast
next
  fix cur
  assume "thread s = InLoop cur \<and> SDL_WaitEvent_rc (at_pass E (passes s)) = 0"
  then show "thread (renderer_step E s) = NoThread"
    by (simp add: step_error)
qed

theorem thread_end_releases_witness:
  "new_actions world_quit (renderer_step env_ok world_quit) =
     [(Renderer, SDL_WaitEvent), (Renderer, SDL_RenderClear 2), (Renderer, SDL_RenderCopy 2 3),
      (Renderer, SDL_RenderPresent 2), (Renderer, SDL_DestroyTexture 3),
      (Renderer, SDL_DestroyRenderer 2), (Renderer, SDL_DestroyWindow 1), (Renderer, SDL_Quit),
      (Renderer, Wr V_initialized (VBool False)), (Renderer, pthread_exit)] \<and>
   thread (renderer_step env_ok world_quit) = NoThread \<and>
   \<not> initialized (renderer_step env_ok world_quit) \<and>
   drop (length (new_actions world_quit (renderer_step env_ok world_quit)) - 6)
     (new_actions world_quit (renderer_step env_ok world_quit)) =
     [(Renderer, SDL_DestroyTexture 3), (Renderer, SDL_DestroyRenderer 2),
      (Renderer, SDL_DestroyWindow 1), (Renderer, SDL_Quit),
      (Renderer, Wr V_initialized (VBool False)), (Renderer, pthread_exit)]"
proof -
  have a: "thread world_quit = InLoop (frame_evt 7 640 480)"
    "SDL_WaitEvent_rc (at_pass env_ok (passes world_quit)) \<noteq> 0"
    "queue world_quit = [quit_evt]"
    by (simp_all add: concrete_defs)
  have b: "evt_type quit_evt \<noteq> event_frame world_quit \<and>
      (evt_type quit_evt = event_quit world_quit \<or> evt_type quit_evt = SDL_QUIT)"
    by (simp add: concrete_defs)
  have c: "thread world_quit \<noteq> NoThread"
    by (simp add: concrete_defs)
  have f: "renderer (renderer_step env_ok world_quit) = 2"
    "frameTex (renderer_step env_ok world_quit) = 3" "win (renderer_step env_ok world_quit) = 1"
    by (simp_all only: step_event [OF a]) (simp_all add: handle_event_def concrete_defs)
  have n: "new_actions world_quit (renderer_step env_ok world_quit) =
     [(Renderer, SDL_WaitEvent), (Renderer, SDL_RenderClear 2), (Renderer, SDL_RenderCopy 2 3),
      (Renderer, SDL_RenderPresent 2), (Renderer, SDL_DestroyTexture 3),
      (Renderer, SDL_DestroyRenderer 2), (Renderer, SDL_DestroyWindow 1), (Renderer, SDL_Quit),
      (Renderer, Wr V_initialized (VBool False)), (Renderer, pthread_exit)]"
    using pass_actions_event [OF a]
    by (simp add: handle_event_def cleanup_def concrete_defs)
  from thread_end_releases [of world_quit env_ok] a b c
  have t: "thread (renderer_step env_ok world_quit) = NoThread"
    by blast
  with thread_end_releases [of world_quit env_ok] c
  have "let s' = renderer_step env_ok world_quit; new = new_actions world_quit s' in
         drop (length new - 6) new =
           [(Renderer, SDL_DestroyTexture (frameTex s')), (Renderer, SDL_DestroyRenderer (renderer s')),
            (Renderer, SDL_DestroyWindow (win s')), (Renderer, SDL_Quit),
            (Renderer, Wr V_initialized (VBool False)), (Renderer, pthread_exit)] \<and>
         List.map_filter (\<lambda>x. released (snd x)) (drop (length new - 6) new) =
           rev [Subsystem, Window, Context, Texture] \<and>
         \<not> initialized s' \<and>
         (\<forall>E'. \<not> can_run E' s' \<and> renderer_step E' s' = s' \<and> renderer_run E' s' = s')"
    by blast
  then have "drop (length (new_actions world_quit (renderer_step env_ok world_quit)) - 6)
     (new_actions world_quit (renderer_step env_ok world_quit)) =
     [(Renderer, SDL_DestroyTexture 3), (Renderer, SDL_DestroyRenderer 2),
      (Renderer, SDL_DestroyWindow 1), (Renderer, SDL_Quit),
      (Renderer, Wr V_initialized (VBool False)), (Renderer, pthread_exit)]"
    and "\<not> initialized (renderer_step env_ok world_quit)"
    by (simp_all add: Let_def f)
  with n t show ?thesis by simp
qed

subsection \<open>Submitting a frame to the running display\<close>

text \<open>
  C1. A call with a frame while \<^verbatim>\<open>initialized\<close> is set and the display thread is past its
  starting phase, under every schedule of the display thread. The caller reads
  \<^verbatim>\<open>initialized\<close>, resets the feedback to \<open>FDBK_NONE\<close>, pushes one frame event with the
  pointer, the width and the height, and takes the mutex, in this order; after that it only
  reads the feedback, sleeps on the condition variable and releases the mutex. The frame event
  is the only event pushed during the call. The call returns 0 when the feedback is \<open>FDBK_OK\<close>
  at the end and -1 when it is \<open>FDBK_FAIL\<close>; it does not return while the feedback is
  \<open>FDBK_NONE\<close>, and it stays blocked only with a display thread that cannot run any more.
\<close>

theorem frame_submission:
  assumes "frame \<noteq> NULL" and "initialized s" and "thread s \<noteq> Starting"
  shows "let r = video_display_frame E frame width height sz s; new = new_actions s (snd r);
             ev = \<lparr>evt_type = event_frame s, data1 = frame,
                   data2 = \<lparr>size_w = width, size_h = height\<rparr>\<rparr> in
     take 4 (actions_of Producer new) =
       [Rd V_initialized, Wr V_display_fdbk (VFdbk FDBK_NONE), SDL_PushEvent ev, Lock] \<and>
     (\<forall>a\<in>set (drop 4 (actions_of Producer new)).
        a = Rd V_display_fdbk \<or> a = CondWait \<or> a = Unlock) \<and>
     filter (\<lambda>x. is_push (snd x)) new = [(Producer, SDL_PushEvent ev)] \<and>
     fst r = (case display_fdbk (snd r) of
                FDBK_NONE \<Rightarrow> Blocked | FDBK_OK \<Rightarrow> Returned 0 | FDBK_FAIL \<Rightarrow> Returned (- 1)) \<and>
     (fst r = Blocked \<longrightarrow> \<not> can_run E (snd r))"
proof -
  let ?s1 = "act Producer (Rd V_initialized) s"
  let ?s2 = "set_display_fdbk Producer FDBK_NONE (preempt E ?s1)"
  let ?s3 = "preempt E ?s2"
  let ?ev = "\<lparr>evt_type = event_frame s, data1 = frame,
      data2 = \<lparr>size_w = width, size_h = height\<rparr>\<rparr>"
  let ?r = "wait_feedback E (push_event Producer ?ev ?s3)"
  have "started ?s1 (preempt E ?s1)"
    using assms(3) by (intro preempt_started) simp
  then have a: "event_frame ?s2 = event_frame s" "thread ?s2 \<noteq> Starting"
    by (simp_all add: started_def)
  from preempt_started [OF a(2), of E] a(1) have ef: "event_frame ?s3 = event_frame s"
    by (simp add: started_def)
  have r: "video_display_frame E frame width height sz s = ?r"
    by (simp add: frame_running [OF assms(1,2)] ef)
  have t: "traced s (snd ?r)" by simp
  have m: "mine s (snd ?r) =
      [Rd V_initialized, Wr V_display_fdbk (VFdbk FDBK_NONE), SDL_PushEvent ?ev, Lock] @
      slept E (push_event Producer ?ev ?s3) @
      (if fst ?r = Blocked then [] else [Rd V_display_fdbk, Unlock])"
    by simp
  have w: "waiting (slept E (push_event Producer ?ev ?s3))" by (rule waiting_slept)
  from t have p: "filter (\<lambda>x. is_push (snd x)) (new_actions s (snd ?r)) =
      [(Producer, SDL_PushEvent ?ev)]"
    unfolding traced_def m using w by simp
  have d: "\<forall>a\<in>set (drop 4 (mine s (snd ?r))). a = Rd V_display_fdbk \<or> a = CondWait \<or> a = Unlock"
    unfolding m using w by (auto simp: waiting_def)
  have k: "take 4 (mine s (snd ?r)) =
      [Rd V_initialized, Wr V_display_fdbk (VFdbk FDBK_NONE), SDL_PushEvent ?ev, Lock]"
    unfolding m by simp
  from k d p wait_feedback_outcome [of E "push_event Producer ?ev ?s3"] show ?thesis
    unfolding r Let_def mine_def by blast
qed

text \<open>
  The running display of 640 by 480 and a frame of the same size: the call returns 0, and -1
  when the upload fails. When the display thread runs only while the caller sleeps, the caller
  sleeps once; when the display thread answers before the caller has the mutex, the caller
  does not sleep.
\<close>

theorem frame_submission_witness:
  "fst (video_display_frame env_ok 8 640 480 460800 world_running) = Returned 0 \<and>
   fst (video_display_frame env_no_upload 8 640 480 460800 world_running) = Returned (- 1) \<and>
   fst (video_display_frame env_early 8 640 480 460800 world_running) = Returned 0 \<and>
   filter (\<lambda>x. is_push (snd x))
     (new_actions world_running (snd (video_display_frame env_ok 8 640 480 460800 world_running))) =
     [(Producer, SDL_PushEvent (frame_evt 8 640 480))] \<and>
   actions_of Producer
     (new_actions world_running (snd (video_display_frame env_ok 8 640 480 460800 world_running))) =
     [Rd V_initialized, Wr V_display_fdbk (VFdbk FDBK_NONE),
      SDL_PushEvent (frame_evt 8 640 480), Lock, Rd V_display_fdbk, CondWait, Rd V_display_fdbk,
      Rd V_display_fdbk, Unlock] \<and>
   actions_of Producer
     (new_actions world_running
        (snd (video_display_frame env_early 8 640 480 460800 world_running))) =
     [Rd V_initialized, Wr V_display_fdbk (VFdbk FDBK_NONE),
      SDL_PushEvent (frame_evt 8 640 480), Lock, Rd V_display_fdbk, Rd V_display_fdbk, Unlock]"
proof -
  have a: "(8::ptr) \<noteq> NULL" "initialized world_running" "thread world_running \<noteq> Starting"
    by (simp_all add: concrete_defs)
  have ok: "display_fdbk (snd (video_display_frame env_ok 8 640 480 460800 world_running)) = FDBK_OK"
    by code_simp
  have bad: "display_fdbk (snd (video_display_frame env_no_upload 8 640 480 460800 world_running)) =
      FDBK_FAIL"
    by code_simp
  have early: "display_fdbk (snd (video_display_frame env_early 8 640 480 460800 world_running)) =
      FDBK_OK"
    by code_simp
  have slept: "actions_of Producer
     (new_actions world_running (snd (video_display_frame env_ok 8 640 480 460800 world_running))) =
     [Rd V_initialized, Wr V_display_fdbk (VFdbk FDBK_NONE),
      SDL_PushEvent (frame_evt 8 640 480), Lock, Rd V_display_fdbk, CondWait, Rd V_display_fdbk,
      Rd V_display_fdbk, Unlock]"
    by code_simp
  have awake: "actions_of Producer
     (new_actions world_running
        (snd (video_display_frame env_early 8 640 480 460800 world_running))) =
     [Rd V_initialized, Wr V_display_fdbk (VFdbk FDBK_NONE),
      SDL_PushEvent (frame_evt 8 640 480), Lock, Rd V_display_fdbk, Rd V_display_fdbk, Unlock]"
    by code_simp
  have e: "\<lparr>evt_type = event_frame world_running, data1 = 8,
      data2 = \<lparr>size_w = 640, size_h = 480\<rparr>\<rparr> = frame_evt 8 640 480"
    by (simp add: concrete_defs)
  from frame_submission [OF a, of env_ok 640 480 460800]
    frame_submission [OF a, of env_no_upload 640 480 460800]
    frame_submission [OF a, of env_early 640 480 460800] ok bad early e
  have "fst (video_display_frame env_ok 8 640 480 460800 world_running) = Returned 0 \<and>
   fst (video_display_frame env_no_upload 8 640 480 460800 world_running) = Returned (- 1) \<and>
   fst (video_display_frame env_early 8 640 480 460800 world_running) = Returned 0 \<and>
   filter (\<lambda>x. is_push (snd x))
     (new_actions world_running (snd (video_display_frame env_ok 8 640 480 460800 world_running))) =
     [(Producer, SDL_PushEvent (frame_evt 8 640 480))]"
    by (simp add: Let_def)
  with slept awake show ?thesis by blast
qed

subsection \<open>The first call\<close>



subsection \<open>The null frame\<close>

text \<open>
  C3. A call with a null frame returns 0 and neither takes the mutex nor reads the feedback
  nor sleeps. With \<^verbatim>\<open>initialized\<close> 0 it only reads that variable. With \<^verbatim>\<open>initialized\<close> set
  it pushes one quit event, and nothing else. In a state that the program reaches, the
  display thread ends, with \<^verbatim>\<open>initialized\<close> 0, once it has been given the time to read the
  queue as far as that event, whatever the library calls return then.
\<close>

theorem null_frame_stops:
  "let r = video_display_frame E NULL width height sz s; new = new_actions s (snd r);
       quit = \<lparr>evt_type = event_quit s, data1 = NULL, data2 = \<lparr>size_w = 0, size_h = 0\<rparr>\<rparr> in
     fst r = Returned 0 \<and>
     (\<forall>a\<in>set (actions_of Producer new). a \<noteq> Lock \<and> a \<noteq> CondWait \<and> a \<noteq> Rd V_display_fdbk) \<and>
     (\<not> initialized s \<longrightarrow> snd r = act Producer (Rd V_initialized) s) \<and>
     (initialized s \<and> thread s \<noteq> Starting \<longrightarrow>
        actions_of Producer new = [Rd V_initialized, SDL_PushEvent quit] \<and>
        filter (\<lambda>x. is_push (snd x)) new = [(Producer, SDL_PushEvent quit)] \<and>
        quit \<in> set (queue (snd r))) \<and>
     (settled s \<longrightarrow>
        (\<forall>E'. thread (renderer_run E' (snd r)) = NoThread \<and>
              \<not> initialized (renderer_run E' (snd r))))"
proof -
  let ?r = "video_display_frame E NULL width height sz s"
  let ?s1 = "act Producer (Rd V_initialized) s"
  let ?p = "preempt E ?s1"
  let ?quit = "\<lparr>evt_type = event_quit s, data1 = NULL, data2 = \<lparr>size_w = 0, size_h = 0\<rparr>\<rparr>"
  have t: "traced s (snd ?r)"
    and m: "mine s (snd ?r) =
      (if initialized s
       then [Rd V_initialized, SDL_PushEvent
               \<lparr>evt_type = event_quit ?p, data1 = NULL, data2 = \<lparr>size_w = 0, size_h = 0\<rparr>\<rparr>]
       else [Rd V_initialized])"
    by (simp_all add: frame_null)
  have a: "fst ?r = Returned 0" by (simp add: frame_null)
  have b: "\<forall>a\<in>set (mine s (snd ?r)). a \<noteq> Lock \<and> a \<noteq> CondWait \<and> a \<noteq> Rd V_display_fdbk"
    unfolding m by simp
  have c: "\<not> initialized s \<longrightarrow> snd ?r = ?s1" by (simp add: frame_null)
  have d: "initialized s \<and> thread s \<noteq> Starting \<longrightarrow>
        mine s (snd ?r) = [Rd V_initialized, SDL_PushEvent ?quit] \<and>
        filter (\<lambda>x. is_push (snd x)) (new_actions s (snd ?r)) = [(Producer, SDL_PushEvent ?quit)] \<and>
        ?quit \<in> set (queue (snd ?r))"
  proof
    assume h: "initialized s \<and> thread s \<noteq> Starting"
    then have "started ?s1 ?p" by (intro preempt_started) simp
    then have q: "event_quit ?p = event_quit s" by (simp add: started_def)
    from h q have m': "mine s (snd ?r) = [Rd V_initialized, SDL_PushEvent ?quit]"
      by (simp add: m)
    from t have "filter (\<lambda>x. is_push (snd x)) (new_actions s (snd ?r)) =
        [(Producer, SDL_PushEvent ?quit)]"
      unfolding traced_def m' by simp
    moreover from h q have "?quit \<in> set (queue (snd ?r))" by (simp add: frame_null)
    ultimately show "mine s (snd ?r) = [Rd V_initialized, SDL_PushEvent ?quit] \<and>
        filter (\<lambda>x. is_push (snd x)) (new_actions s (snd ?r)) = [(Producer, SDL_PushEvent ?quit)] \<and>
        ?quit \<in> set (queue (snd ?r))"
      using m' by simp
  qed
  have e: "settled s \<longrightarrow>
        (\<forall>E'. thread (renderer_run E' (snd ?r)) = NoThread \<and>
              \<not> initialized (renderer_run E' (snd ?r)))"
  proof (intro impI allI)
    fix E'
    assume st: "settled s"
    have sr: "settled (snd ?r)" using st by (rule frame_settled)
    have "thread (snd ?r) \<noteq> NoThread \<longrightarrow>
        (\<exists>e\<in>set (queue (snd ?r)). evt_type e = event_quit (snd ?r))"
    proof (cases "initialized s")
      case True
      then show ?thesis by (simp add: frame_null)
    next
      case False
      with st have "thread s = NoThread"
        by (cases "thread s") (simp_all add: settled_def consistent_def)
      with False show ?thesis by (simp add: frame_null)
    qed
    with sr show "thread (renderer_run E' (snd ?r)) = NoThread \<and>
        \<not> initialized (renderer_run E' (snd ?r))"
      by (rule run_to_quit)
  qed
  from a b c d e show ?thesis
    unfolding Let_def mine_def by blast
qed

text \<open>
  The running display: the quit event is in the queue after the call, and the thread ends
  when it runs. In the initial state the call only reads \<^verbatim>\<open>initialized\<close>.
\<close>

theorem null_frame_stops_witness:
  "fst (video_display_frame env_ok NULL 0 0 0 world_running) = Returned 0 \<and>
   actions_of Producer (new_actions world_running
       (snd (video_display_frame env_ok NULL 0 0 0 world_running))) =
     [Rd V_initialized, SDL_PushEvent quit_evt] \<and>
   queue (snd (video_display_frame env_ok NULL 0 0 0 world_running)) = [quit_evt] \<and>
   thread (renderer_run env_ok (snd (video_display_frame env_ok NULL 0 0 0 world_running))) =
     NoThread \<and>
   \<not> initialized (renderer_run env_ok (snd (video_display_frame env_ok NULL 0 0 0 world_running))) \<and>
   snd (video_display_frame env_ok NULL 0 0 0 world0) = act Producer (Rd V_initialized) world0"
proof -
  have h: "initialized world_running \<and> thread world_running \<noteq> Starting" "settled world_running"
    "\<not> initialized world0"
    by (simp_all add: settled_def consistent_def concrete_defs)
  have q: "\<lparr>evt_type = event_quit world_running, data1 = NULL,
      data2 = \<lparr>size_w = 0, size_h = 0\<rparr>\<rparr> = quit_evt"
    by (simp add: concrete_defs)
  have k: "queue (snd (video_display_frame env_ok NULL 0 0 0 world_running)) = [quit_evt]"
    by code_simp
  from null_frame_stops [of env_ok 0 0 0 world_running] null_frame_stops [of env_ok 0 0 0 world0]
    h q k
  show ?thesis unfolding Let_def by simp
qed

text \<open>
  When the call returns, the display thread is still inside its loop and \<^verbatim>\<open>initialized\<close>
  is still set; a frame submitted at that moment is queued behind the quit event and its
  caller waits forever.
\<close>

theorem null_frame_counterexample:
  "thread (snd (video_display_frame env_ok NULL 0 0 0 world_running)) =
     InLoop (frame_evt 7 640 480) \<and>
   initialized (snd (video_display_frame env_ok NULL 0 0 0 world_running)) \<and>
   fst (video_display_frame env_ok 8 640 480 460800
          (snd (video_display_frame env_ok NULL 0 0 0 world_running))) = Blocked"
  by code_simp

subsection \<open>The lock discipline\<close>

text \<open>
  C9. During a call of \<^verbatim>\<open>video_display_frame\<close> and during a step of the display thread,
  under every schedule, each thread makes its accesses to the shared variables with the mutex
  held, except the accesses of \<open>exempt\<close>, which it makes without the mutex: the caller's read
  of \<^verbatim>\<open>initialized\<close>, its writes of the first size and its reset of the feedback, and the
  display thread's clearing of \<^verbatim>\<open>initialized\<close> at its end.
\<close>

theorem lock_discipline_as_coded:
  "lock_discipline exempt
     (new_actions s (snd (video_display_frame E frame width height sz s))) \<and>
   lock_discipline exempt (new_actions s (renderer_step E s))"
proof
  have "renderer_segment (new_actions s (renderer_step E s))" by (rule step_segment)
  then show "lock_discipline exempt (new_actions s (renderer_step E s))"
    by (simp add: lock_discipline_def renderer_segment_def actions_of_own
        actions_of_other [where t = Renderer and u = Producer])
  let ?r = "video_display_frame E frame width height sz s"
  have "traced s (snd ?r) \<and> guarded (exempt Producer) False (mine s (snd ?r))"
  proof (cases "frame = NULL")
    case True
    then show ?thesis by (simp add: frame_null)
  next
    case False
    show ?thesis
    proof (cases "initialized s")
      case True
      show ?thesis by (simp add: frame_running [OF False True] waiting_slept)
    next
      case ni: False
      let ?c = "video_display_create_thread E
                (set_current_height Producer height
                  (preempt E (set_current_width Producer width
                    (preempt E (act Producer (Rd V_initialized) s)))))"
      have c: "traced s (snd ?c) \<and> guarded (exempt Producer) False (mine s (snd ?c)) \<and>
          (fst ?c \<noteq> Blocked \<longrightarrow> \<not> held_after False (mine s (snd ?c)))"
        by (simp add: create_thread_cases waiting_slept)
      show ?thesis
      proof (cases "fst ?c")
        case Blocked
        with c show ?thesis by (simp add: frame_first [OF False ni] Let_def)
      next
        case (Returned x)
        with c show ?thesis
          by (simp add: frame_first [OF False ni] Let_def guarded_append waiting_slept)
      qed
    qed
  qed
  then show "lock_discipline exempt (new_actions s (snd ?r))"
    by (simp add: traced_discipline)
qed

text \<open>The trace of one call on the running display, where the caller sleeps once.\<close>

theorem lock_discipline_as_coded_witness:
  "new_actions world_running (snd (video_display_frame env_ok 8 640 480 460800 world_running)) =
     [(Producer, Rd V_initialized), (Producer, Wr V_display_fdbk (VFdbk FDBK_NONE)),
      (Producer, SDL_PushEvent (frame_evt 8 640 480)), (Producer, Lock),
      (Producer, Rd V_display_fdbk), (Producer, CondWait), (Renderer, SDL_WaitEvent),
      (Renderer, Lock), (Renderer, Rd V_current_width), (Renderer, Rd V_current_height),
      (Renderer, Rd V_current_width), (Renderer, SDL_UpdateTexture 3 8 640),
      (Renderer, Wr V_display_fdbk (VFdbk FDBK_OK)), (Renderer, CondSignal), (Renderer, Unlock),
      (Renderer, SDL_RenderClear 2), (Renderer, SDL_RenderCopy 2 3), (Renderer, SDL_RenderPresent 2),
      (Producer, Rd V_display_fdbk), (Producer, Rd V_display_fdbk), (Producer, Unlock)] \<and>
   lock_discipline exempt
     (new_actions world_running (snd (video_display_frame env_ok 8 640 480 460800 world_running)))"
proof -
  have "new_actions world_running (snd (video_display_frame env_ok 8 640 480 460800 world_running)) =
     [(Producer, Rd V_initialized), (Producer, Wr V_display_fdbk (VFdbk FDBK_NONE)),
      (Producer, SDL_PushEvent (frame_evt 8 640 480)), (Producer, Lock),
      (Producer, Rd V_display_fdbk), (Producer, CondWait), (Renderer, SDL_WaitEvent),
      (Renderer, Lock), (Renderer, Rd V_current_width), (Renderer, Rd V_current_height),
      (Renderer, Rd V_current_width), (Renderer, SDL_UpdateTexture 3 8 640),
      (Renderer, Wr V_display_fdbk (VFdbk FDBK_OK)), (Renderer, CondSignal), (Renderer, Unlock),
      (Renderer, SDL_RenderClear 2), (Renderer, SDL_RenderCopy 2 3), (Renderer, SDL_RenderPresent 2),
      (Producer, Rd V_display_fdbk), (Producer, Rd V_display_fdbk), (Producer, Unlock)]"
    by code_simp
  with lock_discipline_as_coded [of world_running env_ok 8 640 480 460800] show ?thesis
    by blast
qed

text \<open>
  With no access exempt the discipline does not hold for that call: the caller reads
  \<^verbatim>\<open>initialized\<close> and resets the feedback before it takes the mutex.
\<close>

theorem lock_discipline_counterexample:
  "\<not> lock_discipline no_exemption
       (new_actions world_running
          (snd (video_display_frame env_ok 8 640 480 460800 world_running))) \<and>
   take 4 (new_actions world_running
            (snd (video_display_frame env_ok 8 640 480 460800 world_running))) =
     [(Producer, Rd V_initialized), (Producer, Wr V_display_fdbk (VFdbk FDBK_NONE)),
      (Producer, SDL_PushEvent (frame_evt 8 640 480)), (Producer, Lock)]"
  by code_simp

end
